theory Spec2Isabelle
  imports Complex_Main
begin

section \<open>The inventory-control MDP solver of \<^verbatim>\<open>mdp_solver.py\<close>\<close>

text \<open>
  The class \<^verbatim>\<open>MDPInventorySolver\<close> is embedded function by function. Its
  attributes become the fields of a record that every method takes and, where it
  mutates one, returns.

  Numbers. Python's \<^verbatim>\<open>int\<close> is \<open>int\<close>. Python's \<^verbatim>\<open>float\<close> and numpy's
  \<^verbatim>\<open>float64\<close> are idealised as \<open>real\<close>: rounding, overflow to infinity and
  NaN are not represented, so a sum written here is the exact sum and not the
  rounded left-to-right accumulation. The one infinite value the source writes
  itself, \<^verbatim>\<open>float('-inf')\<close> as the starting maximum of \<^verbatim>\<open>bellman_update\<close>, is
  the constructor \<open>NegInf\<close> of the type \<open>maxval\<close>. The entries of the policy
  table (numpy's 64-bit integers) are \<open>int\<close>; the solver only writes order
  quantities between 0 and the capacity there. Where the source computes with an
  entry (\<^verbatim>\<open>state + self.policy[state]\<close>) the 64-bit wrap-around is written out
  (\<open>int64\<close>), and where it averages such sums in float64 (\<^verbatim>\<open>np.mean\<close>) the model
  gives a result only in the range where float64 is exact enough for the caller
  (\<open>np_mean\<close>); outside it the result is the marker \<open>Inexact\<close>.

  Exceptions are values: every method that can raise returns \<open>error + 'a\<close>.

  The methods \<^verbatim>\<open>simulate_episode\<close> (random trajectories) and \<^verbatim>\<open>export_results\<close>
  (file output) and the transport tables they read are outside the solver proper and
  are not embedded.
\<close>

subsection \<open>Data\<close>

datatype error = IndexError | ValueError | UnboundLocalError | NonFinite | Inexact

text \<open>The eight parameters read from the configuration dictionary (the lookup with
  defaults of \<^verbatim>\<open>config.get\<close> is not modelled: \<open>config\<close> holds the resolved values).\<close>

record config =
  max_inventory :: int
  order_cost :: real
  holding_cost :: real
  stockout_cost :: real
  selling_price :: real
  demand_mean :: real
  demand_std :: real
  gamma :: real

text \<open>The attributes set at lines 29 to 32 of the source, with the configuration.\<close>

record solver =
  cfg :: config
  states :: "int list"
  value_function :: "real list"
  policy :: "int list"
  q_values :: "real list list"

datatype maxval = NegInf | Finite real

text \<open>One element of \<^verbatim>\<open>iteration_history\<close> and the dictionary that
  \<^verbatim>\<open>value_iteration\<close> returns.\<close>

record history_entry =
  iteration :: int
  delta :: real
  max_value :: real
  min_value :: real

record convergence =
  converged :: bool
  iterations :: int
  final_delta :: real
  history :: "history_entry list"

subsection \<open>Python and numpy primitives\<close>

text \<open>\<^verbatim>\<open>int(x)\<close> on a float truncates towards zero.\<close>

definition py_int :: "real \<Rightarrow> int" where
  "py_int x = (if 0 \<le> x then \<lfloor>x\<rfloor> else \<lceil>x\<rceil>)"

text \<open>\<^verbatim>\<open>range(n)\<close>: the integers from 0 to \<open>n - 1\<close>, empty when \<open>n \<le> 0\<close>.\<close>

definition py_range :: "int \<Rightarrow> int list" where
  "py_range n = [0..n - 1]"

text \<open>Indexing one axis of length \<open>n\<close>: a negative index counts from the end, an
  index outside \<open>-n..n-1\<close> raises.\<close>

definition np_index :: "nat \<Rightarrow> int \<Rightarrow> error + nat" where
  "np_index n i =
     (if 0 \<le> i \<and> i < int n then Inr (nat i)
      else if - int n \<le> i \<and> i < 0 then Inr (nat (int n + i))
      else Inl IndexError)"

definition getitem :: "'a list \<Rightarrow> int \<Rightarrow> error + 'a" where
  "getitem xs i =
     (case np_index (length xs) i of Inl e \<Rightarrow> Inl e | Inr k \<Rightarrow> Inr (xs ! k))"

definition setitem :: "'a list \<Rightarrow> int \<Rightarrow> 'a \<Rightarrow> error + 'a list" where
  "setitem xs i v =
     (case np_index (length xs) i of Inl e \<Rightarrow> Inl e | Inr k \<Rightarrow> Inr (xs[k := v]))"

text \<open>\<^verbatim>\<open>q[i, j] = v\<close> on a two-dimensional array kept as the list of its rows.\<close>

definition setitem2 :: "'a list list \<Rightarrow> int \<Rightarrow> int \<Rightarrow> 'a \<Rightarrow> error + 'a list list" where
  "setitem2 q i j v =
     (case np_index (length q) i of
        Inl e \<Rightarrow> Inl e
      | Inr r \<Rightarrow>
          (case np_index (length (q ! r)) j of
             Inl e \<Rightarrow> Inl e
           | Inr c \<Rightarrow> Inr (q[r := (q ! r)[c := v]])))"

text \<open>\<^verbatim>\<open>np.max\<close> and \<^verbatim>\<open>np.min\<close> raise ValueError on an empty array.\<close>

definition np_max :: "real list \<Rightarrow> error + real" where
  "np_max xs = (case xs of [] \<Rightarrow> Inl ValueError | x # ys \<Rightarrow> Inr (fold max ys x))"

definition np_min :: "real list \<Rightarrow> error + real" where
  "np_min xs = (case xs of [] \<Rightarrow> Inl ValueError | x # ys \<Rightarrow> Inr (fold min ys x))"

text \<open>The sum of a Python integer and a numpy 64-bit integer is a numpy 64-bit
  integer: it wraps around modulo \<open>2\<^sup>6\<^sup>4\<close> into \<open>-2\<^sup>6\<^sup>3..2\<^sup>6\<^sup>3 - 1\<close>.\<close>

definition int64 :: "int \<Rightarrow> int" where
  "int64 x = (x + 2 ^ 63) mod 2 ^ 64 - 2 ^ 63"

text \<open>\<^verbatim>\<open>np.mean\<close> of a list of 64-bit integers converts them to float64, adds them
  and divides by their number. When the sum of the absolute values of the entries
  plus the number of entries is below \<open>2\<^sup>5\<^sup>3\<close>, every entry and every partial
  sum is an integer that float64 holds exactly, and the rounded quotient has the same
  integer part as the exact quotient, which is all that the caller,
  \<^verbatim>\<open>int(np.mean(...))\<close>, reads: the model returns the exact quotient. Outside that
  range (and on the empty list, where numpy returns NaN) the float64 result depends
  on rounding, which the reals of this model do not represent, and the model returns
  \<open>Inexact\<close>.\<close>

definition np_mean :: "int list \<Rightarrow> error + real" where
  "np_mean xs =
     (if xs \<noteq> [] \<and> sum_list (map abs xs) + int (length xs) < 2 ^ 53
      then Inr (real_of_int (sum_list xs) / real (length xs))
      else Inl Inexact)"

text \<open>The builtin \<^verbatim>\<open>max\<close> of a non-empty list (it is only called on one).\<close>

definition py_max :: "int list \<Rightarrow> int" where
  "py_max xs = fold max (tl xs) (hd xs)"

text \<open>\<^verbatim>\<open>scipy.stats.norm.pdf(x, loc, scale)\<close>, the density of the normal distribution,
  for \<open>scale > 0\<close> (SciPy returns NaN for any other scale; the theorems below
  that depend on the value assume \<open>demand_std > 0\<close>).\<close>

definition norm_pdf :: "real \<Rightarrow> real \<Rightarrow> real \<Rightarrow> real" where
  "norm_pdf x loc scale = exp (- (((x - loc) / scale)\<^sup>2) / 2) / (sqrt (2 * pi) * scale)"

subsection \<open>Construction\<close>

text \<open>Lines 29 to 32. \<^verbatim>\<open>np.zeros((len(self.states), self.max_inventory + 1))\<close>
  raises ValueError for a negative dimension, that is, for a capacity below \<open>-1\<close>.\<close>

definition init :: "config \<Rightarrow> error + solver" where
  "init c =
     (let sts = py_range (max_inventory c + 1) in
      if max_inventory c + 1 < 0 then Inl ValueError
      else Inr \<lparr>cfg = c, states = sts,
                value_function = replicate (length sts) 0,
                policy = replicate (length sts) 0,
                q_values = replicate (length sts) (replicate (nat (max_inventory c + 1)) 0)\<rparr>)"

subsection \<open>Demand, reward and transition models\<close>

definition demand_probability :: "solver \<Rightarrow> int \<Rightarrow> real" where
  "demand_probability self d =
     (if d < 0 then 0
      else norm_pdf (real_of_int d) (demand_mean (cfg self)) (demand_std (cfg self)))"

definition immediate_reward :: "solver \<Rightarrow> int \<Rightarrow> int \<Rightarrow> int \<Rightarrow> real" where
  "immediate_reward self state action demand =
     (let sales = min state demand;
          revenue = real_of_int sales * selling_price (cfg self);
          holding = real_of_int state * holding_cost (cfg self);
          ordering = (if action > 0 then order_cost (cfg self) + real_of_int action * 5 else 0);
          stockout = real_of_int (max 0 (demand - state)) * stockout_cost (cfg self)
      in revenue - holding - ordering - stockout)"

definition max_demand :: "solver \<Rightarrow> int" where
  "max_demand self = py_int (demand_mean (cfg self) + 4 * demand_std (cfg self))"

text \<open>The expression \<^verbatim>\<open>max(0, min(self.max_inventory, state + action - d))\<close>.\<close>

definition resulting_state :: "solver \<Rightarrow> int \<Rightarrow> int \<Rightarrow> int \<Rightarrow> int" where
  "resulting_state self state action d =
     max 0 (min (max_inventory (cfg self)) (state + action - d))"

fun transition_loop :: "solver \<Rightarrow> int \<Rightarrow> int \<Rightarrow> int \<Rightarrow> int list \<Rightarrow> real \<Rightarrow> real" where
  "transition_loop self state action next_state [] total_prob = total_prob"
| "transition_loop self state action next_state (d # ds) total_prob =
     transition_loop self state action next_state ds
       (if resulting_state self state action d = next_state
        then total_prob + demand_probability self d else total_prob)"

definition transition_probability :: "solver \<Rightarrow> int \<Rightarrow> int \<Rightarrow> int \<Rightarrow> real" where
  "transition_probability self state action next_state =
     transition_loop self state action next_state (py_range (max_demand self + 1)) 0"

subsection \<open>The Bellman update\<close>

text \<open>The inner loop over \<^verbatim>\<open>demand\<close> (lines 67 to 71); the read of
  \<^verbatim>\<open>self.value_function[next_state]\<close> can raise.\<close>

fun demand_loop :: "solver \<Rightarrow> int \<Rightarrow> int \<Rightarrow> int list \<Rightarrow> real \<Rightarrow> error + real" where
  "demand_loop self state action [] expected_value = Inr expected_value"
| "demand_loop self state action (d # ds) expected_value =
     (let prob = demand_probability self d;
          reward = immediate_reward self state action d;
          next_state = resulting_state self state action d
      in case getitem (value_function self) next_state of
           Inl e \<Rightarrow> Inl e
         | Inr v \<Rightarrow>
             demand_loop self state action ds
               (expected_value + prob * (reward + gamma (cfg self) * v)))"

text \<open>The comparison \<^verbatim>\<open>expected_value > max_value\<close>.\<close>

fun exceeds :: "real \<Rightarrow> maxval \<Rightarrow> bool" where
  "exceeds x NegInf = True"
| "exceeds x (Finite m) = (x > m)"

text \<open>The outer loop over \<^verbatim>\<open>action\<close> (lines 63 to 77), carrying \<^verbatim>\<open>max_value\<close>
  and \<^verbatim>\<open>best_action\<close>; it writes \<^verbatim>\<open>self.q_values[state, action]\<close>.\<close>

fun action_loop ::
  "solver \<Rightarrow> int \<Rightarrow> int list \<Rightarrow> maxval \<times> int \<Rightarrow> error + ((maxval \<times> int) \<times> solver)" where
  "action_loop self state [] best = Inr (best, self)"
| "action_loop self state (a # as) best =
     (case demand_loop self state a (py_range (max_demand self + 1)) 0 of
        Inl e \<Rightarrow> Inl e
      | Inr expected_value \<Rightarrow>
          (case setitem2 (q_values self) state a expected_value of
             Inl e \<Rightarrow> Inl e
           | Inr q \<Rightarrow>
               action_loop (self\<lparr>q_values := q\<rparr>) state as
                 (if exceeds expected_value (fst best)
                  then (Finite expected_value, a) else best)))"

definition bellman_update :: "solver \<Rightarrow> int \<Rightarrow> error + ((maxval \<times> int) \<times> solver)" where
  "bellman_update self state =
     (let max_action = min (max_inventory (cfg self) - state) (max_inventory (cfg self))
      in action_loop self state (py_range (max_action + 1)) (NegInf, 0))"

subsection \<open>Value iteration\<close>

text \<open>The loop over \<^verbatim>\<open>self.states\<close> (lines 88 to 92), carrying \<^verbatim>\<open>delta\<close>. A
  \<^verbatim>\<open>new_value\<close> of minus infinity leaves the real numbers of this model:
  \<open>NonFinite\<close> marks that (it is no Python exception, and no state of
  \<^verbatim>\<open>self.states\<close> reaches it, see \<open>bellman_update_first_max\<close>).\<close>

fun state_loop :: "solver \<Rightarrow> int list \<Rightarrow> real \<Rightarrow> error + (real \<times> solver)" where
  "state_loop self [] dl = Inr (dl, self)"
| "state_loop self (s # ss) dl =
     (case bellman_update self s of
        Inl e \<Rightarrow> Inl e
      | Inr ((NegInf, best_action), self1) \<Rightarrow> Inl NonFinite
      | Inr ((Finite new_value, best_action), self1) \<Rightarrow>
          (case getitem (value_function self1) s of
             Inl e \<Rightarrow> Inl e
           | Inr old \<Rightarrow>
               (case setitem (value_function self1) s new_value of
                  Inl e \<Rightarrow> Inl e
                | Inr vf \<Rightarrow>
                    (case setitem (policy self1) s best_action of
                       Inl e \<Rightarrow> Inl e
                     | Inr pol \<Rightarrow>
                         state_loop (self1\<lparr>value_function := vf, policy := pol\<rparr>) ss
                           (max dl \<bar>old - new_value\<bar>)))))"

text \<open>One pass of the body of the loop over \<^verbatim>\<open>iteration\<close>, up to the
  \<^verbatim>\<open>append\<close> to the history: \<^verbatim>\<open>delta = 0\<close> and the loop over the states. The copy
  \<^verbatim>\<open>old_value\<close> of line 86 is never read and is left out.\<close>

definition sweep :: "solver \<Rightarrow> error + (real \<times> solver)" where
  "sweep self = state_loop self (states self) 0"

text \<open>The loop over \<^verbatim>\<open>iteration\<close> (lines 84 to 102). \<open>vars\<close> holds the loop's
  variables \<^verbatim>\<open>delta\<close> and \<^verbatim>\<open>iteration\<close>, which are unbound until the body has run
  once.\<close>

fun iteration_loop ::
  "solver \<Rightarrow> real \<Rightarrow> int list \<Rightarrow> (real \<times> int) option \<Rightarrow> history_entry list \<Rightarrow>
   error + ((real \<times> int) option \<times> history_entry list \<times> solver)" where
  "iteration_loop self epsilon [] vars hist = Inr (vars, hist, self)"
| "iteration_loop self epsilon (it # its) vars hist =
     (case sweep self of
        Inl e \<Rightarrow> Inl e
      | Inr (dl, self1) \<Rightarrow>
          (case np_max (value_function self1) of
             Inl e \<Rightarrow> Inl e
           | Inr mx \<Rightarrow>
               (case np_min (value_function self1) of
                  Inl e \<Rightarrow> Inl e
                | Inr mn \<Rightarrow>
                    (let hist1 = hist @ [\<lparr>iteration = it + 1, delta = dl,
                                           max_value = mx, min_value = mn\<rparr>]
                     in if dl < epsilon then Inr (Some (dl, it), hist1, self1)
                        else iteration_loop self1 epsilon its (Some (dl, it)) hist1))))"

definition value_iteration :: "solver \<Rightarrow> real \<Rightarrow> int \<Rightarrow> error + (convergence \<times> solver)" where
  "value_iteration self epsilon max_iterations =
     (case iteration_loop self epsilon (py_range max_iterations) None [] of
        Inl e \<Rightarrow> Inl e
      | Inr (None, hist, self1) \<Rightarrow> Inl UnboundLocalError
      | Inr (Some (dl, it), hist, self1) \<Rightarrow>
          Inr (\<lparr>converged = dl < epsilon, iterations = it + 1,
                final_delta = dl, history = hist\<rparr>, self1))"

subsection \<open>The (s, S) summary\<close>

fun collect_loop ::
  "solver \<Rightarrow> int list \<Rightarrow> int list \<Rightarrow> int list \<Rightarrow> error + (int list \<times> int list)" where
  "collect_loop self [] reorder_points order_up_to = Inr (reorder_points, order_up_to)"
| "collect_loop self (s # ss) reorder_points order_up_to =
     (case getitem (policy self) s of
        Inl e \<Rightarrow> Inl e
      | Inr a \<Rightarrow>
          (if a > 0
           then collect_loop self ss (reorder_points @ [s]) (order_up_to @ [int64 (s + a)])
           else collect_loop self ss reorder_points order_up_to))"

definition compute_s_S_policy :: "solver \<Rightarrow> error + (int \<times> int)" where
  "compute_s_S_policy self =
     (case collect_loop self (states self) [] [] of
        Inl e \<Rightarrow> Inl e
      | Inr (reorder_points, order_up_to) \<Rightarrow>
          (if reorder_points \<noteq> []
           then (if order_up_to \<noteq> []
                 then (case np_mean order_up_to of
                         Inl e \<Rightarrow> Inl e
                       | Inr m \<Rightarrow> Inr (py_max reorder_points, py_int m))
                 else Inr (py_max reorder_points, max_inventory (cfg self) div 2))
           else Inr (max_inventory (cfg self) div 3, 2 * max_inventory (cfg self) div 3)))"

subsection \<open>Well-formed solvers\<close>

text \<open>What the constructor establishes for a capacity that is not negative: the
  list of states and the shapes of the three tables.\<close>

definition wf_solver :: "solver \<Rightarrow> bool" where
  "wf_solver self \<longleftrightarrow>
     0 \<le> max_inventory (cfg self) \<and>
     states self = py_range (max_inventory (cfg self) + 1) \<and>
     length (value_function self) = nat (max_inventory (cfg self) + 1) \<and>
     length (policy self) = nat (max_inventory (cfg self) + 1) \<and>
     length (q_values self) = nat (max_inventory (cfg self) + 1) \<and>
     list_all (\<lambda>row. length row = nat (max_inventory (cfg self) + 1)) (q_values self)"

subsection \<open>Reference notions for the statements\<close>

text \<open>The expected value of ordering \<open>a\<close> in state \<open>s\<close> as the specification
  writes it: the sum, over the demands \<open>d\<close> from 0 to \<open>demand_mean + 4 demand_std\<close>
  truncated towards zero, of the probability of \<open>d\<close> times the reward plus the
  discounted value of the next state \<open>s + a - d\<close> clamped to \<open>0..max_inventory\<close>.
  The support and the clamp are written out here and do not go through \<open>max_demand\<close>
  and \<open>resulting_state\<close>, which the loops of the embedding use.\<close>

definition expected_value :: "solver \<Rightarrow> int \<Rightarrow> int \<Rightarrow> real" where
  "expected_value self s =
     (\<lambda>a. \<Sum>d = 0..(if 0 \<le> demand_mean (cfg self) + 4 * demand_std (cfg self)
                     then \<lfloor>demand_mean (cfg self) + 4 * demand_std (cfg self)\<rfloor>
                     else \<lceil>demand_mean (cfg self) + 4 * demand_std (cfg self)\<rceil>).
        demand_probability self d *
          (immediate_reward self s a d +
           gamma (cfg self) *
             value_function self ! nat (max 0 (min (max_inventory (cfg self)) (s + a - d)))))"

text \<open>One step of the scan for the best action: the update of
  \<^verbatim>\<open>(max_value, best_action)\<close> at lines 75 to 77, for expected values \<open>Q\<close>.\<close>

definition pick :: "(int \<Rightarrow> real) \<Rightarrow> int \<Rightarrow> maxval \<times> int \<Rightarrow> maxval \<times> int" where
  "pick Q a best = (if exceeds (Q a) (fst best) then (Finite (Q a), a) else best)"

text \<open>The solver as constructed with the default parameters of the source, and with
  the near-deterministic demand of the specification's known-value scenario.\<close>

definition default_config :: config where
  "default_config =
     \<lparr>max_inventory = 100, order_cost = 50, holding_cost = 2, stockout_cost = 20,
      selling_price = 15, demand_mean = 10, demand_std = 3, gamma = 95 / 100\<rparr>"

definition default_solver :: solver where
  "default_solver =
     \<lparr>cfg = default_config, states = py_range 101, value_function = replicate 101 0,
      policy = replicate 101 0, q_values = replicate 101 (replicate 101 0)\<rparr>"

definition known_value_solver :: solver where
  "known_value_solver =
     \<lparr>cfg = \<lparr>max_inventory = 10, order_cost = 0, holding_cost = 0, stockout_cost = 100,
              selling_price = 1, demand_mean = 5, demand_std = 1 / 100, gamma = 95 / 100\<rparr>,
      states = py_range 11, value_function = replicate 11 0, policy = replicate 11 0,
      q_values = replicate 11 (replicate 11 0)\<rparr>"

text \<open>A solver with capacity 1, demand support \<open>{0, 1}\<close> and a value table that
  makes ordering one unit the better action in state 0.\<close>

definition valued_solver :: solver where
  "valued_solver =
     \<lparr>cfg = \<lparr>max_inventory = 1, order_cost = 50, holding_cost = 2, stockout_cost = 20,
              selling_price = 15, demand_mean = 0, demand_std = 1 / 4, gamma = 95 / 100\<rparr>,
      states = py_range 2, value_function = [0, 100], policy = replicate 2 0,
      q_values = replicate 2 (replicate 2 0)\<rparr>"

text \<open>A solver with capacity 2 whose policy orders in states 0 and 1.\<close>

definition ordering_solver :: solver where
  "ordering_solver =
     \<lparr>cfg = default_config\<lparr>max_inventory := 2\<rparr>, states = py_range 3,
      value_function = replicate 3 0, policy = [2, 1, 0],
      q_values = replicate 3 (replicate 3 0)\<rparr>"

text \<open>The smallest solver whose values move: capacity 0, demand support \<open>{0, 1}\<close>.\<close>

definition small_config :: config where
  "small_config =
     \<lparr>max_inventory = 0, order_cost = 50, holding_cost = 2, stockout_cost = 20,
      selling_price = 15, demand_mean = 1, demand_std = 1 / 10, gamma = 95 / 100\<rparr>"

definition small_solver :: solver where
  "small_solver =
     \<lparr>cfg = small_config, states = py_range 1, value_function = replicate 1 0,
      policy = replicate 1 0, q_values = replicate 1 (replicate 1 0)\<rparr>"

text \<open>\<open>sweeps n\<close> is \<open>n\<close> passes of \<open>sweep\<close> in a row, each on the tables the
  previous one left; \<open>nth_sweep self j\<close> is pass number \<open>j + 1\<close> of that run, with
  its delta.\<close>

fun sweeps :: "nat \<Rightarrow> solver \<Rightarrow> error + solver" where
  "sweeps 0 self = Inr self"
| "sweeps (Suc n) self =
     (case sweep self of Inl e \<Rightarrow> Inl e | Inr (dl, self1) \<Rightarrow> sweeps n self1)"

definition nth_sweep :: "solver \<Rightarrow> nat \<Rightarrow> error + (real \<times> solver)" where
  "nth_sweep self j = (case sweeps j self of Inl e \<Rightarrow> Inl e | Inr p \<Rightarrow> sweep p)"

text \<open>The change of the value of state \<open>s\<close> between two solvers, and the feasibility
  of every entry of the policy table.\<close>

definition value_change :: "solver \<Rightarrow> solver \<Rightarrow> int \<Rightarrow> real" where
  "value_change self self' s = \<bar>value_function self ! nat s - value_function self' ! nat s\<bar>"

definition policy_feasible :: "solver \<Rightarrow> bool" where
  "policy_feasible self \<longleftrightarrow>
     (\<forall>s\<in>{0..max_inventory (cfg self)}.
        0 \<le> policy self ! nat s \<and> policy self ! nat s \<le> max_inventory (cfg self) - s)"

text \<open>Two calls of \<^verbatim>\<open>value_iteration\<close> in succession on the same solver with the same
  parameters; the result is the solver after the first and after the second call.\<close>

definition solve_twice :: "solver \<Rightarrow> real \<Rightarrow> int \<Rightarrow> error + (solver \<times> solver)" where
  "solve_twice self epsilon max_iterations =
     (case value_iteration self epsilon max_iterations of
        Inl e \<Rightarrow> Inl e
      | Inr (r1, self1) \<Rightarrow>
          (case value_iteration self1 epsilon max_iterations of
             Inl e \<Rightarrow> Inl e
           | Inr (r2, self2) \<Rightarrow> Inr (self1, self2)))"

section \<open>The reward model\<close>
text \<open>
  C4. For every state, every demand and every order quantity \<open>a\<close> of the action space
  (\<open>a \<ge> 0\<close>), \<open>immediate_reward\<close> is \<open>min(s, d) * selling_price\<close> minus
  \<open>s * holding_cost\<close> (on the inventory before the sale) minus the ordering cost
  (0 when \<open>a = 0\<close>, else \<open>order_cost + 5 a\<close>) minus \<open>max(0, d - s) * stockout_cost\<close>.
\<close>

theorem immediate_reward_formula:
  assumes "0 \<le> a"
  shows "immediate_reward self s a d =
           real_of_int (min s d) * selling_price (cfg self)
           - real_of_int s * holding_cost (cfg self)
           - (if a = 0 then 0 else order_cost (cfg self) + real_of_int a * 5)
           - real_of_int (max 0 (d - s)) * stockout_cost (cfg self)"
  using assms by (simp add: immediate_reward_def Let_def)

theorem immediate_reward_formula_witness:
  "(0::int) \<le> 3 \<and>
   immediate_reward \<lparr>cfg = \<lparr>max_inventory = 10, order_cost = 50, holding_cost = 2,
       stockout_cost = 20, selling_price = 15, demand_mean = 10, demand_std = 3,
       gamma = 95 / 100\<rparr>, states = [], value_function = [], policy = [], q_values = []\<rparr> 4 3 6
     = -53"
  using immediate_reward_formula [of 3 "\<lparr>cfg = \<lparr>max_inventory = 10, order_cost = 50,
       holding_cost = 2, stockout_cost = 20, selling_price = 15, demand_mean = 10,
       demand_std = 3, gamma = 95 / 100\<rparr>, states = [], value_function = [], policy = [],
       q_values = []\<rparr>" 4 6]
  by simp

section \<open>Concrete solvers\<close>

lemma init_default: "init default_config = Inr default_solver"
  by (simp add: init_def default_config_def default_solver_def py_range_def Let_def)

lemma known_value_init:
  "init \<lparr>max_inventory = 10, order_cost = 0, holding_cost = 0, stockout_cost = 100,
              selling_price = 1, demand_mean = 5, demand_std = 1 / 100, gamma = 95 / 100\<rparr>
   = Inr known_value_solver"
  by (simp add: init_def known_value_solver_def py_range_def Let_def)

lemma wf_default_solver: "wf_solver default_solver"
  by (simp add: wf_solver_def default_solver_def default_config_def list_all_iff)

lemma std_default_solver: "0 < demand_std (cfg default_solver)"
  by (simp add: default_solver_def default_config_def)

lemma capacity_default_solver: "max_inventory (cfg default_solver) = 100"
  by (simp add: default_solver_def default_config_def)

lemma max_demand_known_value: "max_demand known_value_solver = 5"
  by (simp add: max_demand_def known_value_solver_def py_int_def)

lemma init_small: "init small_config = Inr small_solver"
  by (simp add: init_def small_config_def small_solver_def py_range_def Let_def)

lemma small_solver_shape:
  "small_solver = \<lparr>cfg = small_config, states = [0], value_function = [0], policy = [0],
                    q_values = [[0]]\<rparr>"
  by (simp add: small_solver_def py_range_def)

lemma wf_ordering_solver: "wf_solver ordering_solver"
  by (simp add: wf_solver_def ordering_solver_def default_config_def list_all_iff)

lemma ordering_states:
  "{s \<in> {0..max_inventory (cfg ordering_solver)}. 0 < policy ordering_solver ! nat s} = {0, 1}"
proof -
  have "{0..2::int} = {0, 1, 2}" by auto
  then show ?thesis
    by (auto simp: ordering_solver_def default_config_def)
qed

section \<open>The demand model\<close>

lemma norm_pdf_pos: "0 < scale \<Longrightarrow> 0 < norm_pdf x loc scale"
  by (simp add: norm_pdf_def)

lemma norm_pdf_le_peak: "0 < scale \<Longrightarrow> norm_pdf x loc scale \<le> 1 / (sqrt (2 * pi) * scale)"
  by (simp add: norm_pdf_def divide_right_mono)

lemma sqrt_two_pi_less_three: "sqrt (2 * pi) < 3"
proof -
  have "2 * pi < 3\<^sup>2" using pi_less_4 by (simp add: power2_eq_square)
  then have "sqrt (2 * pi) < sqrt (3\<^sup>2)" by (rule real_sqrt_less_mono)
  then show ?thesis by simp
qed

lemma demand_probability_nonneg:
  "0 < demand_std (cfg self) \<Longrightarrow> 0 \<le> demand_probability self d"
  using norm_pdf_pos [of "demand_std (cfg self)" "real_of_int d" "demand_mean (cfg self)"]
  by (simp add: demand_probability_def)

lemma known_value_peak: "demand_probability known_value_solver 5 = 100 / sqrt (2 * pi)"
  by (simp add: demand_probability_def known_value_solver_def norm_pdf_def)

text \<open>
  C5, as the code has it. For a positive standard deviation, \<open>demand_probability\<close>
  is 0 for every negative demand and the normal density at \<open>d\<close> for every other
  integer \<open>d\<close>. Its value lies between 0 and the peak of the density,
  \<open>1 / (sqrt (2 pi) * demand_std)\<close>; it is at most 1 when that peak is, that is,
  when \<open>demand_std\<close> is at least \<open>1 / sqrt (2 pi)\<close>.
\<close>

theorem demand_probability_range:
  assumes "0 < demand_std (cfg self)"
  shows "(d < 0 \<longrightarrow> demand_probability self d = 0) \<and>
         (0 \<le> d \<longrightarrow> demand_probability self d =
            norm_pdf (real_of_int d) (demand_mean (cfg self)) (demand_std (cfg self))) \<and>
         0 \<le> demand_probability self d \<and>
         demand_probability self d \<le> 1 / (sqrt (2 * pi) * demand_std (cfg self)) \<and>
         (1 \<le> sqrt (2 * pi) * demand_std (cfg self) \<longrightarrow> demand_probability self d \<le> 1)"
proof -
  let ?p = "norm_pdf (real_of_int d) (demand_mean (cfg self)) (demand_std (cfg self))"
  let ?b = "1 / (sqrt (2 * pi) * demand_std (cfg self))"
  have pos: "0 < ?p" and le: "?p \<le> ?b"
    using assms by (rule norm_pdf_pos, rule norm_pdf_le_peak)
  have b0: "0 \<le> ?b" using assms by simp
  have b1: "?b \<le> 1" if "1 \<le> sqrt (2 * pi) * demand_std (cfg self)"
    using that by (simp add: divide_le_eq)
  have p1: "?p \<le> 1" if "1 \<le> sqrt (2 * pi) * demand_std (cfg self)"
    using le b1 [OF that] by (rule order_trans)
  show ?thesis
    using pos le b0 p1 by (simp add: demand_probability_def)
qed

theorem demand_probability_range_witness:
  "0 < demand_std (cfg default_solver) \<and>
   demand_probability default_solver (- 1) = 0 \<and>
   demand_probability default_solver 10 = norm_pdf 10 10 3 \<and>
   0 \<le> demand_probability default_solver 10 \<and>
   demand_probability default_solver 10 \<le> 1"
proof -
  have "1 \<le> sqrt (2 * pi)"
    using pi_ge_two by (intro real_sqrt_ge_one) simp
  moreover have "sqrt (2 * pi) \<le> sqrt (2 * pi) * 3"
    by simp
  ultimately have "1 \<le> sqrt (2 * pi) * 3"
    by (rule order_trans)
  then have big: "1 \<le> sqrt (2 * pi) * demand_std (cfg default_solver)"
    by (simp add: default_solver_def default_config_def)
  show ?thesis
    using demand_probability_range [OF std_default_solver, of "- 1"]
      demand_probability_range [OF std_default_solver, of 10] big std_default_solver
    by (simp add: default_solver_def default_config_def)
qed

text \<open>
  The value need not be at most 1: in the known-value scenario of the specification
  (mean 5, standard deviation 0.01) the density at 5 is \<open>100 / sqrt (2 pi)\<close>, about 39.9.
\<close>

theorem demand_probability_unit_counterexample:
  "\<not> (0 \<le> demand_probability known_value_solver 5 \<and> demand_probability known_value_solver 5 \<le> 1)"
proof -
  have "1 < 100 / sqrt (2 * pi)"
    using sqrt_two_pi_less_three by (simp add: less_divide_eq)
  then show ?thesis by (simp add: known_value_peak)
qed

section \<open>The transition model\<close>

lemma sum_list_upto: "(\<Sum>d\<leftarrow>[i..j]. f d) = (\<Sum>d = i..j. f d)"
  by (simp add: sum_list_distinct_conv_sum_set)

lemma transition_loop_sum:
  "transition_loop self s a ns ds acc =
     acc + (\<Sum>d\<leftarrow>ds. if resulting_state self s a d = ns then demand_probability self d else 0)"
  by (induction ds arbitrary: acc) simp_all

lemma transition_probability_sum:
  "transition_probability self s a ns =
     (\<Sum>d = 0..max_demand self.
        if resulting_state self s a d = ns then demand_probability self d else 0)"
  by (simp add: transition_probability_def transition_loop_sum py_range_def sum_list_upto)

lemma resulting_state_range:
  "0 \<le> max_inventory (cfg self) \<Longrightarrow>
     resulting_state self s a d \<in> {0..max_inventory (cfg self)}"
  by (simp add: resulting_state_def)

lemma regroup_by_next_state:
  fixes g :: "int \<Rightarrow> int \<Rightarrow> real"
  assumes "0 \<le> max_inventory (cfg self)"
  shows "(\<Sum>ns = 0..max_inventory (cfg self).
            \<Sum>d = 0..max_demand self.
              if resulting_state self s a d = ns then g d ns else 0) =
         (\<Sum>d = 0..max_demand self. g d (resulting_state self s a d))"
proof -
  have inner: "(\<Sum>ns = 0..max_inventory (cfg self).
                 if resulting_state self s a d = ns then g d ns else (0::real)) =
               g d (resulting_state self s a d)" for d
    using resulting_state_range [OF assms, of s a d] by (simp add: sum.delta')
  have "(\<Sum>ns = 0..max_inventory (cfg self).
            \<Sum>d = 0..max_demand self.
              if resulting_state self s a d = ns then g d ns else 0) =
        (\<Sum>d = 0..max_demand self. \<Sum>ns = 0..max_inventory (cfg self).
              if resulting_state self s a d = ns then g d ns else 0)"
    by (rule sum.swap)
  also have "\<dots> = (\<Sum>d = 0..max_demand self. g d (resulting_state self s a d))"
    by (simp only: inner)
  finally show ?thesis .
qed

lemma sum_transition_probability:
  assumes "0 \<le> max_inventory (cfg self)"
  shows "(\<Sum>ns = 0..max_inventory (cfg self). transition_probability self s a ns) =
         (\<Sum>d = 0..max_demand self. demand_probability self d)"
proof -
  have "(\<Sum>ns = 0..max_inventory (cfg self). transition_probability self s a ns) =
        (\<Sum>ns = 0..max_inventory (cfg self).
            \<Sum>d = 0..max_demand self.
              if resulting_state self s a d = ns then demand_probability self d else 0)"
    by (simp add: transition_probability_sum)
  also have "\<dots> = (\<Sum>d = 0..max_demand self. demand_probability self d)"
    using assms by (rule regroup_by_next_state)
  finally show ?thesis .
qed

text \<open>
  In exact arithmetic the materialised transition model and the inline summation of
  \<^verbatim>\<open>bellman_update\<close> agree: weighting a table \<open>V\<close> by the transition probabilities
  gives the sum over the demand support of the probability times \<open>V\<close> at the clamped
  next state. The source adds float64 numbers, and the two strategies add them in
  different orders, so its two results can differ in the last bits; rounding is
  outside this model.
\<close>

lemma transition_sum_equals_inline_sum:
  assumes "0 \<le> max_inventory (cfg self)" and "0 < demand_std (cfg self)"
    and "length V = nat (max_inventory (cfg self) + 1)"
  shows "(\<Sum>ns = 0..max_inventory (cfg self).
            transition_probability self s a ns * V ! nat ns) =
         (\<Sum>d = 0..(if 0 \<le> demand_mean (cfg self) + 4 * demand_std (cfg self)
                   then \<lfloor>demand_mean (cfg self) + 4 * demand_std (cfg self)\<rfloor>
                   else \<lceil>demand_mean (cfg self) + 4 * demand_std (cfg self)\<rceil>).
            demand_probability self d *
              V ! nat (max 0 (min (max_inventory (cfg self)) (s + a - d))))"
proof -
  have "(\<Sum>ns = 0..max_inventory (cfg self).
            transition_probability self s a ns * V ! nat ns) =
        (\<Sum>ns = 0..max_inventory (cfg self).
            \<Sum>d = 0..max_demand self.
              if resulting_state self s a d = ns
              then demand_probability self d * V ! nat ns else 0)"
    by (simp add: transition_probability_sum sum_distrib_right if_distrib [of "\<lambda>x. x * _"]
             cong: if_cong)
  also have "\<dots> = (\<Sum>d = 0..max_demand self.
            demand_probability self d * V ! nat (resulting_state self s a d))"
    using assms(1) by (rule regroup_by_next_state)
  finally show ?thesis
    by (simp only: max_demand_def py_int_def resulting_state_def)
qed

text \<open>
  C6, as the code has it. The transition probabilities out of a state and action sum,
  over the next states \<open>0..max_inventory\<close>, to the sum of \<open>demand_probability d\<close> over
  the demands \<open>d\<close> from 0 to \<open>demand_mean + 4 demand_std\<close> truncated towards zero,
  which does not depend on the state or the action.
\<close>

theorem transition_probability_total_mass:
  assumes "0 \<le> max_inventory (cfg self)" and "0 < demand_std (cfg self)"
  shows "(\<Sum>ns = 0..max_inventory (cfg self). transition_probability self s a ns) =
         (\<Sum>d = 0..(if 0 \<le> demand_mean (cfg self) + 4 * demand_std (cfg self)
                   then \<lfloor>demand_mean (cfg self) + 4 * demand_std (cfg self)\<rfloor>
                   else \<lceil>demand_mean (cfg self) + 4 * demand_std (cfg self)\<rceil>).
            demand_probability self d)"
  using sum_transition_probability [OF assms(1), of s a]
  by (simp only: max_demand_def py_int_def)

theorem transition_probability_total_mass_witness:
  "0 \<le> max_inventory (cfg default_solver) \<and> 0 < demand_std (cfg default_solver) \<and>
   (\<Sum>ns = 0..100. transition_probability default_solver 40 20 ns) =
   (\<Sum>d = 0..22. norm_pdf (real_of_int d) 10 3)"
proof -
  have cap: "0 \<le> max_inventory (cfg default_solver)"
    by (simp add: capacity_default_solver)
  have bound: "(if 0 \<le> demand_mean (cfg default_solver) + 4 * demand_std (cfg default_solver)
                then \<lfloor>demand_mean (cfg default_solver) + 4 * demand_std (cfg default_solver)\<rfloor>
                else \<lceil>demand_mean (cfg default_solver) + 4 * demand_std (cfg default_solver)\<rceil>)
               = 22"
    by (simp add: default_solver_def default_config_def)
  have dens: "(\<Sum>d = 0..22. demand_probability default_solver d) =
              (\<Sum>d = 0..22. norm_pdf (real_of_int d) 10 3)"
    by (intro sum.cong) (simp_all add: demand_probability_def default_solver_def default_config_def)
  have "(\<Sum>ns = 0..100. transition_probability default_solver 40 20 ns) =
        (\<Sum>d = 0..22. norm_pdf (real_of_int d) 10 3)"
    using transition_probability_total_mass [OF cap std_default_solver, of 40 20]
    by (simp only: bound dens capacity_default_solver)
  then show ?thesis
    using cap std_default_solver by simp
qed

text \<open>
  That sum is a sum of density values and is not normalised: in the known-value
  scenario it exceeds 33, so it is not near 1.
\<close>

theorem transition_mass_counterexample:
  "33 < (\<Sum>ns = 0..10. transition_probability known_value_solver 0 5 ns)"
proof -
  have cap: "max_inventory (cfg known_value_solver) = 10"
    and std: "0 < demand_std (cfg known_value_solver)"
    by (simp_all add: known_value_solver_def)
  have "(\<Sum>ns = 0..10. transition_probability known_value_solver 0 5 ns) =
        (\<Sum>d = 0..5. demand_probability known_value_solver d)"
    using sum_transition_probability [of known_value_solver 0 5]
    by (simp add: cap max_demand_known_value)
  moreover have "demand_probability known_value_solver 5 \<le>
        (\<Sum>d = 0..5. demand_probability known_value_solver d)"
    using demand_probability_nonneg [OF std]
    by (intro member_le_sum) simp_all
  moreover have "33 < 100 / sqrt (2 * pi)"
    using sqrt_two_pi_less_three by (simp add: less_divide_eq)
  ultimately show ?thesis by (simp add: known_value_peak)
qed

section \<open>The Bellman update\<close>

lemma getitem_in_range:
  "0 \<le> i \<Longrightarrow> i < int (length xs) \<Longrightarrow> getitem xs i = Inr (xs ! nat i)"
  by (simp add: getitem_def np_index_def)

lemma setitem_in_range:
  "0 \<le> i \<Longrightarrow> i < int (length xs) \<Longrightarrow> setitem xs i v = Inr (xs[nat i := v])"
  by (simp add: setitem_def np_index_def)

lemma setitem2_in_range:
  "0 \<le> i \<Longrightarrow> i < int (length q) \<Longrightarrow> 0 \<le> j \<Longrightarrow> j < int (length (q ! nat i)) \<Longrightarrow>
     setitem2 q i j v = Inr (q[nat i := (q ! nat i)[nat j := v]])"
  by (simp add: setitem2_def np_index_def)

lemma demand_loop_sum:
  assumes "0 \<le> max_inventory (cfg self)"
    and "length (value_function self) = nat (max_inventory (cfg self) + 1)"
  shows "demand_loop self s a ds acc =
           Inr (acc + (\<Sum>d\<leftarrow>ds. demand_probability self d *
                  (immediate_reward self s a d +
                   gamma (cfg self) * value_function self ! nat (resulting_state self s a d))))"
proof (induction ds arbitrary: acc)
  case Nil
  show ?case by simp
next
  case (Cons d ds)
  have "getitem (value_function self) (resulting_state self s a d) =
          Inr (value_function self ! nat (resulting_state self s a d))"
    using resulting_state_range [OF assms(1), of s a d] assms(2)
    by (intro getitem_in_range) auto
  then show ?case
    by (simp add: Cons.IH Let_def add.assoc)
qed

lemma demand_loop_expected_value:
  assumes "wf_solver self"
  shows "demand_loop self s a (py_range (max_demand self + 1)) 0 = Inr (expected_value self s a)"
  using assms
  by (simp add: wf_solver_def demand_loop_sum expected_value_def py_range_def sum_list_upto
        max_demand_def py_int_def resulting_state_def)

lemma expected_value_q_values [simp]:
  "expected_value (self\<lparr>q_values := q\<rparr>) = expected_value self"
  by (intro ext)
     (simp add: expected_value_def demand_probability_def immediate_reward_def)

lemma wf_solver_q_update:
  assumes "wf_solver self" "i < length (q_values self)" "length row = length (q_values self ! i)"
  shows "wf_solver (self\<lparr>q_values := (q_values self)[i := row]\<rparr>)"
proof -
  have "list_all (\<lambda>r. length r = nat (max_inventory (cfg self) + 1)) ((q_values self)[i := row])"
    using assms set_update_subset_insert [of "q_values self" i row]
    by (auto simp: wf_solver_def list_all_iff)
  then show ?thesis using assms by (simp add: wf_solver_def)
qed

lemma action_loop_fold:
  assumes "wf_solver self" "0 \<le> s" "s \<le> max_inventory (cfg self)"
    and "\<forall>a\<in>set as. 0 \<le> a \<and> a \<le> max_inventory (cfg self)"
  shows "\<exists>self'. action_loop self s as best =
             Inr (fold (pick (expected_value self s)) as best, self') \<and>
           wf_solver self' \<and> cfg self' = cfg self \<and> states self' = states self \<and>
           value_function self' = value_function self \<and> policy self' = policy self"
  using assms
proof (induction as arbitrary: self best)
  case Nil
  then show ?case by simp
next
  case (Cons a as)
  let ?ev = "expected_value self s a"
  let ?q = "(q_values self)[nat s := (q_values self ! nat s)[nat a := ?ev]]"
  let ?self1 = "self\<lparr>q_values := ?q\<rparr>"
  have len: "length (q_values self) = nat (max_inventory (cfg self) + 1)"
    and rows: "\<forall>r\<in>set (q_values self). length r = nat (max_inventory (cfg self) + 1)"
    using Cons.prems(1) by (simp_all add: wf_solver_def list_all_iff)
  have s_lt: "nat s < length (q_values self)"
    using Cons.prems(2,3) len by simp
  then have row: "length (q_values self ! nat s) = nat (max_inventory (cfg self) + 1)"
    using rows by simp
  have a_ok: "0 \<le> a" "a \<le> max_inventory (cfg self)"
    using Cons.prems(4) by simp_all
  have set2: "setitem2 (q_values self) s a ?ev = Inr ?q"
    using Cons.prems(2,3) a_ok len row by (intro setitem2_in_range) simp_all
  have wf1: "wf_solver ?self1"
    using Cons.prems(1) s_lt by (intro wf_solver_q_update) simp_all
  have "\<exists>self'. action_loop ?self1 s as (pick (expected_value self s) a best) =
             Inr (fold (pick (expected_value ?self1 s)) as (pick (expected_value self s) a best), self') \<and>
           wf_solver self' \<and> cfg self' = cfg ?self1 \<and> states self' = states ?self1 \<and>
           value_function self' = value_function ?self1 \<and> policy self' = policy ?self1"
    using wf1 Cons.prems(2,3,4) by (intro Cons.IH) simp_all
  then obtain self' where
    run: "action_loop ?self1 s as (pick (expected_value self s) a best) =
            Inr (fold (pick (expected_value self s)) as (pick (expected_value self s) a best), self')"
    and keep: "wf_solver self'" "cfg self' = cfg self" "states self' = states self"
      "value_function self' = value_function self" "policy self' = policy self"
    by auto
  have "action_loop self s (a # as) best =
          action_loop ?self1 s as (pick (expected_value self s) a best)"
    using demand_loop_expected_value [OF Cons.prems(1), of s a] set2
    by (simp add: pick_def)
  then have "action_loop self s (a # as) best =
          Inr (fold (pick (expected_value self s)) (a # as) best, self')"
    using run by simp
  then show ?case using keep by blast
qed

lemma fold_pick_first_max:
  assumes "xs \<noteq> []" "sorted xs" "distinct xs"
  shows "\<exists>m b. fold (pick Q) xs (NegInf, b0) = (Finite m, b) \<and> b \<in> set xs \<and> Q b = m \<and>
           (\<forall>a\<in>set xs. Q a \<le> m) \<and> (\<forall>a\<in>set xs. a < b \<longrightarrow> Q a < m)"
  using assms
proof (induction xs rule: rev_nonempty_induct)
  case (single x)
  show ?case by (simp add: pick_def)
next
  case (snoc x xs)
  have below: "\<forall>y\<in>set xs. y < x"
  proof
    fix y assume y: "y \<in> set xs"
    then have "y \<le> x" using snoc.prems(1) by (simp add: sorted_append)
    moreover have "y \<noteq> x" using y snoc.prems(2) by auto
    ultimately show "y < x" by simp
  qed
  have "sorted xs" "distinct xs"
    using snoc.prems by (simp_all add: sorted_append)
  from snoc.IH [OF this] obtain m b where
    run: "fold (pick Q) xs (NegInf, b0) = (Finite m, b)"
    and b: "b \<in> set xs" "Q b = m"
    and ub: "\<forall>a\<in>set xs. Q a \<le> m"
    and first: "\<forall>a\<in>set xs. a < b \<longrightarrow> Q a < m"
    by blast
  show ?case
  proof (cases "Q x > m")
    case True
    then have "fold (pick Q) (xs @ [x]) (NegInf, b0) = (Finite (Q x), x)"
      using run by (simp add: pick_def)
    moreover have "\<forall>a\<in>set (xs @ [x]). Q a \<le> Q x"
      using ub True by fastforce
    moreover have "\<forall>a\<in>set (xs @ [x]). a < x \<longrightarrow> Q a < Q x"
      using ub True by fastforce
    ultimately show ?thesis by simp
  next
    case False
    then have "fold (pick Q) (xs @ [x]) (NegInf, b0) = (Finite m, b)"
      using run by (simp add: pick_def)
    moreover have "\<forall>a\<in>set (xs @ [x]). Q a \<le> m"
      using ub False by auto
    moreover have "\<forall>a\<in>set (xs @ [x]). a < b \<longrightarrow> Q a < m"
      using first below b by auto
    ultimately show ?thesis using b by simp
  qed
qed

lemma bellman_update_first_max:
  assumes "wf_solver self" "0 \<le> s" "s \<le> max_inventory (cfg self)"
  shows "\<exists>m b self'. bellman_update self s = Inr ((Finite m, b), self') \<and>
           b \<in> {0..max_inventory (cfg self) - s} \<and> expected_value self s b = m \<and>
           (\<forall>a\<in>{0..max_inventory (cfg self) - s}. expected_value self s a \<le> m) \<and>
           (\<forall>a\<in>{0..max_inventory (cfg self) - s}. a < b \<longrightarrow> expected_value self s a < m) \<and>
           wf_solver self' \<and> cfg self' = cfg self \<and> states self' = states self \<and>
           value_function self' = value_function self \<and> policy self' = policy self"
proof -
  let ?as = "[0..max_inventory (cfg self) - s]"
  have "\<forall>a\<in>set ?as. 0 \<le> a \<and> a \<le> max_inventory (cfg self)"
    using assms(2) by simp
  from action_loop_fold [OF assms this, of "(NegInf, 0)"] obtain self' where
    run: "action_loop self s ?as (NegInf, 0) =
            Inr (fold (pick (expected_value self s)) ?as (NegInf, 0), self')"
    and keep: "wf_solver self'" "cfg self' = cfg self" "states self' = states self"
      "value_function self' = value_function self" "policy self' = policy self"
    by blast
  have "?as \<noteq> []" using assms(3) by simp
  from fold_pick_first_max [OF this, of "expected_value self s" 0] obtain m b where
    "fold (pick (expected_value self s)) ?as (NegInf, 0) = (Finite m, b)"
    "b \<in> set ?as" "expected_value self s b = m"
    "\<forall>a\<in>set ?as. expected_value self s a \<le> m"
    "\<forall>a\<in>set ?as. a < b \<longrightarrow> expected_value self s a < m"
    by auto
  moreover have "bellman_update self s = action_loop self s ?as (NegInf, 0)"
    using assms(2) by (simp add: bellman_update_def py_range_def Let_def min_def)
  ultimately show ?thesis using run keep by simp
qed

lemma bellman_update_max_expected:
  assumes "wf_solver self" and "0 \<le> s" and "s \<le> max_inventory (cfg self)"
  shows "\<exists>self'. bellman_update self s =
           Inr ((Finite (Max (expected_value self s ` {0..max_inventory (cfg self) - s})),
                 Min {a \<in> {0..max_inventory (cfg self) - s}.
                        expected_value self s a =
                        Max (expected_value self s ` {0..max_inventory (cfg self) - s})}),
                self') \<and>
           value_function self' = value_function self \<and> policy self' = policy self"
proof -
  let ?A = "{0..max_inventory (cfg self) - s}"
  let ?Q = "expected_value self s"
  from bellman_update_first_max [OF assms] obtain m b self' where
    run: "bellman_update self s = Inr ((Finite m, b), self')"
    and b: "b \<in> ?A" "?Q b = m"
    and ub: "\<forall>a\<in>?A. ?Q a \<le> m"
    and first: "\<forall>a\<in>?A. a < b \<longrightarrow> ?Q a < m"
    and keep: "value_function self' = value_function self" "policy self' = policy self"
    by blast
  have mx: "Max (?Q ` ?A) = m"
    using b ub by (intro Max_eqI) auto
  have "Min {a \<in> ?A. ?Q a = m} = b"
  proof (rule Min_eqI)
    show "finite {a \<in> ?A. ?Q a = m}" by (rule finite_subset [of _ ?A]) auto
    show "b \<in> {a \<in> ?A. ?Q a = m}" using b by simp
    show "b \<le> y" if "y \<in> {a \<in> ?A. ?Q a = m}" for y
      using that first by force
  qed
  then show ?thesis using run mx keep by simp
qed

lemma sum_int_0_1: "(\<Sum>d = 0..(1::int). f d) = f 0 + f 1"
proof -
  have "{0..1::int} = {0, 1}" by auto
  then show ?thesis by simp
qed

lemma wf_valued_solver: "wf_solver valued_solver"
  by (simp add: wf_solver_def valued_solver_def list_all_iff)

lemma valued_expected_values:
  "expected_value valued_solver 0 0 = - 20 * norm_pdf 1 0 (1 / 4)"
  "expected_value valued_solver 0 1 = 40 * norm_pdf 0 0 (1 / 4) - 75 * norm_pdf 1 0 (1 / 4)"
  by (simp_all add: expected_value_def valued_solver_def sum_int_0_1 demand_probability_def
        immediate_reward_def algebra_simps)

lemma valued_densities:
  "0 < norm_pdf 0 0 (1 / 4)" "norm_pdf 1 0 (1 / 4) \<le> norm_pdf 0 0 (1 / 4) / 9"
proof -
  show "0 < norm_pdf 0 0 (1 / 4)"
    by (rule norm_pdf_pos) simp
  have "1 + 8 \<le> exp (8::real)"
    by (rule exp_ge_add_one_self)
  then have "exp (- 8 :: real) \<le> 1 / 9"
    by (simp add: exp_minus divide_simps)
  then have "exp (- 8 :: real) / (sqrt (2 * pi) * (1 / 4)) \<le> 1 / 9 / (sqrt (2 * pi) * (1 / 4))"
    by (intro divide_right_mono) simp_all
  then show "norm_pdf 1 0 (1 / 4) \<le> norm_pdf 0 0 (1 / 4) / 9"
    by (simp add: norm_pdf_def)
qed

text \<open>
  C1. On a well-formed solver and for every state \<open>s\<close> in \<open>0..max_inventory\<close>,
  \<open>bellman_update\<close> returns the maximum, over the feasible actions \<open>a\<close> in
  \<open>0..max_inventory - s\<close>, of the sum over the demands \<open>d\<close> in
  \<open>0..int(demand_mean + 4 demand_std)\<close> of \<open>demand_probability d\<close> times
  \<open>immediate_reward s a d + gamma * value_function[clamp(s + a - d, 0, max_inventory)]\<close>,
  and the smallest action that attains this maximum; it leaves the value and policy
  tables as they are.
\<close>

theorem bellman_update_max:
  assumes "wf_solver self" and "0 < demand_std (cfg self)"
    and "0 \<le> s" and "s \<le> max_inventory (cfg self)"
  shows "let M = max_inventory (cfg self);
             x = demand_mean (cfg self) + 4 * demand_std (cfg self);
             n = (if 0 \<le> x then \<lfloor>x\<rfloor> else \<lceil>x\<rceil>);
             Q = (\<lambda>a. \<Sum>d = 0..n.
                    demand_probability self d *
                      (immediate_reward self s a d +
                       gamma (cfg self) * value_function self ! nat (max 0 (min M (s + a - d)))));
             A = {0..M - s}
         in \<exists>self'. bellman_update self s =
                Inr ((Finite (Max (Q ` A)), Min {a \<in> A. Q a = Max (Q ` A)}), self') \<and>
              value_function self' = value_function self \<and> policy self' = policy self"
  using bellman_update_max_expected [OF assms(1,3,4)]
  by (simp only: Let_def expected_value_def)

theorem bellman_update_max_witness:
  "wf_solver valued_solver \<and> 0 < demand_std (cfg valued_solver) \<and>
   (0::int) \<le> 0 \<and> 0 \<le> max_inventory (cfg valued_solver) \<and>
   (\<exists>self'. bellman_update valued_solver 0 =
      Inr ((Finite (40 * norm_pdf 0 0 (1 / 4) - 75 * norm_pdf 1 0 (1 / 4)), 1), self'))"
proof -
  let ?Q = "expected_value valued_solver 0"
  let ?A = "{0..max_inventory (cfg valued_solver) - 0}"
  have std: "0 < demand_std (cfg valued_solver)"
    and cap: "0 \<le> max_inventory (cfg valued_solver)"
    by (simp_all add: valued_solver_def)
  have "\<exists>self'. bellman_update valued_solver 0 =
          Inr ((Finite (Max (?Q ` ?A)), Min {a \<in> ?A. ?Q a = Max (?Q ` ?A)}), self') \<and>
        value_function self' = value_function valued_solver \<and>
        policy self' = policy valued_solver"
    using bellman_update_max [OF wf_valued_solver std order_refl cap]
    by (simp only: Let_def expected_value_def)
  then obtain self' where
    run: "bellman_update valued_solver 0 =
            Inr ((Finite (Max (?Q ` ?A)), Min {a \<in> ?A. ?Q a = Max (?Q ` ?A)}), self')"
    by blast
  have A: "?A = {0, 1}"
    by (auto simp: valued_solver_def)
  have less: "?Q 0 < ?Q 1"
    using valued_densities by (simp add: valued_expected_values)
  have "Max (?Q ` {0, 1}) = ?Q 1"
    using less by (simp add: max_def)
  then have mx: "Max (?Q ` ?A) = ?Q 1"
    by (simp only: A)
  have "{a \<in> {0, 1}. ?Q a = ?Q 1} = {1}"
    using less by auto
  then have "{a \<in> ?A. ?Q a = ?Q 1} = {1}"
    by (simp only: A)
  then have mn: "Min {a \<in> ?A. ?Q a = ?Q 1} = 1"
    by (simp only: Min_singleton)
  have "bellman_update valued_solver 0 = Inr ((Finite (?Q 1), 1), self')"
    using run by (simp only: mx mn)
  then have "bellman_update valued_solver 0 =
          Inr ((Finite (40 * norm_pdf 0 0 (1 / 4) - 75 * norm_pdf 1 0 (1 / 4)), 1), self')"
    by (simp only: valued_expected_values)
  then show ?thesis
    using wf_valued_solver std cap by blast
qed

section \<open>Value iteration\<close>

subsection \<open>One pass over the states\<close>

lemma wf_solver_tables_update:
  assumes "wf_solver self" "length vf = length (value_function self)"
    "length pol = length (policy self)"
  shows "wf_solver (self\<lparr>value_function := vf, policy := pol\<rparr>)"
  using assms by (simp add: wf_solver_def)

lemma state_loop_step:
  assumes "wf_solver self" "0 \<le> s" "s \<le> max_inventory (cfg self)"
  shows "\<exists>m b self1. bellman_update self s = Inr ((Finite m, b), self1) \<and>
           b \<in> {0..max_inventory (cfg self) - s} \<and>
           wf_solver self1 \<and> cfg self1 = cfg self \<and> states self1 = states self \<and>
           value_function self1 = value_function self \<and> policy self1 = policy self \<and>
           state_loop self (s # ss) dl =
             state_loop (self1\<lparr>value_function := (value_function self)[nat s := m],
                                policy := (policy self)[nat s := b]\<rparr>) ss
               (max dl \<bar>value_function self ! nat s - m\<bar>)"
proof -
  from bellman_update_first_max [OF assms] obtain m b self1 where
    run: "bellman_update self s = Inr ((Finite m, b), self1)"
    and b: "b \<in> {0..max_inventory (cfg self) - s}"
    and keep: "wf_solver self1" "cfg self1 = cfg self" "states self1 = states self"
      "value_function self1 = value_function self" "policy self1 = policy self"
    by blast
  have len: "s < int (length (value_function self))" "s < int (length (policy self))"
    using assms by (simp_all add: wf_solver_def)
  have "state_loop self (s # ss) dl =
          state_loop (self1\<lparr>value_function := (value_function self)[nat s := m],
                             policy := (policy self)[nat s := b]\<rparr>) ss
            (max dl \<bar>value_function self ! nat s - m\<bar>)"
    using run keep(4,5) len assms(2)
    by (simp add: getitem_in_range setitem_in_range)
  then show ?thesis using run b keep by blast
qed

lemma state_loop_policy:
  assumes "wf_solver self" "\<forall>s\<in>set ss. 0 \<le> s \<and> s \<le> max_inventory (cfg self)"
  shows "\<exists>dl' self'. state_loop self ss dl = Inr (dl', self') \<and>
           wf_solver self' \<and> cfg self' = cfg self \<and> states self' = states self \<and>
           (\<forall>i\<in>{0..max_inventory (cfg self)}.
              (i \<in> set ss \<longrightarrow> 0 \<le> policy self' ! nat i \<and>
                                policy self' ! nat i \<le> max_inventory (cfg self) - i) \<and>
              (i \<notin> set ss \<longrightarrow> policy self' ! nat i = policy self ! nat i))"
  using assms
proof (induction ss arbitrary: self dl)
  case Nil
  then show ?case by simp
next
  case (Cons s ss)
  have s: "0 \<le> s" "s \<le> max_inventory (cfg self)"
    using Cons.prems(2) by simp_all
  from state_loop_step [OF Cons.prems(1) s, of ss dl] obtain m b self1 where
    b: "b \<in> {0..max_inventory (cfg self) - s}"
    and keep: "wf_solver self1" "cfg self1 = cfg self" "states self1 = states self"
      "value_function self1 = value_function self" "policy self1 = policy self"
    and step: "state_loop self (s # ss) dl =
             state_loop (self1\<lparr>value_function := (value_function self)[nat s := m],
                                policy := (policy self)[nat s := b]\<rparr>) ss
               (max dl \<bar>value_function self ! nat s - m\<bar>)"
    by blast
  let ?self2 = "self1\<lparr>value_function := (value_function self)[nat s := m],
                      policy := (policy self)[nat s := b]\<rparr>"
  have wf2: "wf_solver ?self2"
    using keep by (intro wf_solver_tables_update) simp_all
  have cfg2: "cfg ?self2 = cfg self" using keep by simp
  have "\<forall>s\<in>set ss. 0 \<le> s \<and> s \<le> max_inventory (cfg ?self2)"
    using Cons.prems(2) cfg2 by simp
  from Cons.IH [OF wf2 this, of "max dl \<bar>value_function self ! nat s - m\<bar>"]
  obtain dl' self' where
    run: "state_loop ?self2 ss (max dl \<bar>value_function self ! nat s - m\<bar>) = Inr (dl', self')"
    and keep': "wf_solver self'" "cfg self' = cfg self" "states self' = states self"
    and pol: "\<forall>i\<in>{0..max_inventory (cfg self)}.
              (i \<in> set ss \<longrightarrow> 0 \<le> policy self' ! nat i \<and>
                                policy self' ! nat i \<le> max_inventory (cfg self) - i) \<and>
              (i \<notin> set ss \<longrightarrow> policy self' ! nat i = policy ?self2 ! nat i)"
    using keep by auto
  have slen: "nat s < length (policy self)"
    using Cons.prems(1) s by (simp add: wf_solver_def)
  have "\<forall>i\<in>{0..max_inventory (cfg self)}.
              (i \<in> set (s # ss) \<longrightarrow> 0 \<le> policy self' ! nat i \<and>
                                policy self' ! nat i \<le> max_inventory (cfg self) - i) \<and>
              (i \<notin> set (s # ss) \<longrightarrow> policy self' ! nat i = policy self ! nat i)"
  proof
    fix i assume i: "i \<in> {0..max_inventory (cfg self)}"
    show "(i \<in> set (s # ss) \<longrightarrow> 0 \<le> policy self' ! nat i \<and>
                                policy self' ! nat i \<le> max_inventory (cfg self) - i) \<and>
          (i \<notin> set (s # ss) \<longrightarrow> policy self' ! nat i = policy self ! nat i)"
    proof (cases "i \<in> set ss")
      case True
      then show ?thesis using pol i by simp
    next
      case False
      then have same: "policy self' ! nat i = (policy self)[nat s := b] ! nat i"
        using pol i by simp
      show ?thesis
      proof (cases "i = s")
        case True
        then show ?thesis using same slen b by simp
      next
        case neq: False
        then have "nat i \<noteq> nat s" using i s by auto
        then show ?thesis using same False neq by simp
      qed
    qed
  qed
  then show ?case using step run keep' by simp
qed

lemma sweep_total:
  assumes "wf_solver self"
  shows "\<exists>dl self'. sweep self = Inr (dl, self') \<and> wf_solver self' \<and>
           cfg self' = cfg self \<and> policy_feasible self'"
proof -
  have "\<forall>s\<in>set (states self). 0 \<le> s \<and> s \<le> max_inventory (cfg self)"
    using assms by (simp add: wf_solver_def py_range_def)
  from state_loop_policy [OF assms this, of 0] obtain dl' self' where
    run: "state_loop self (states self) 0 = Inr (dl', self')"
    and keep: "wf_solver self'" "cfg self' = cfg self"
    and pol: "\<forall>i\<in>{0..max_inventory (cfg self)}.
              (i \<in> set (states self) \<longrightarrow> 0 \<le> policy self' ! nat i \<and>
                                policy self' ! nat i \<le> max_inventory (cfg self) - i)"
    by blast
  have "set (states self) = {0..max_inventory (cfg self)}"
    using assms by (simp add: wf_solver_def py_range_def)
  then have "policy_feasible self'"
    using pol keep(2) by (simp add: policy_feasible_def)
  then show ?thesis using run keep by (simp add: sweep_def)
qed

subsection \<open>The loop over iterations\<close>

lemma np_max_nonempty: "xs \<noteq> [] \<Longrightarrow> \<exists>m. np_max xs = Inr m"
  by (cases xs) (simp_all add: np_max_def)

lemma np_min_nonempty: "xs \<noteq> [] \<Longrightarrow> \<exists>m. np_min xs = Inr m"
  by (cases xs) (simp_all add: np_min_def)

lemma wf_solver_value_function_nonempty: "wf_solver self \<Longrightarrow> value_function self \<noteq> []"
  by (auto simp: wf_solver_def)

lemma nth_sweep_0: "nth_sweep self 0 = sweep self"
  by (simp add: nth_sweep_def)

lemma nth_sweep_Suc:
  "sweep self = Inr (dl, self1) \<Longrightarrow> nth_sweep self (Suc j) = nth_sweep self1 j"
  by (simp add: nth_sweep_def)

lemma iteration_loop_run:
  assumes "wf_solver self" "its \<noteq> []"
  shows "\<exists>k dl hist' self'.
           iteration_loop self epsilon its vars hist = Inr (Some (dl, its ! k), hist', self') \<and>
           k < length its \<and> (dl < epsilon \<or> Suc k = length its) \<and>
           sweeps (Suc k) self = Inr self' \<and>
           wf_solver self' \<and> cfg self' = cfg self \<and> policy_feasible self' \<and>
           nth_sweep self k = Inr (dl, self') \<and>
           (\<forall>j<k. \<exists>d q. nth_sweep self j = Inr (d, q) \<and> \<not> d < epsilon) \<and>
           length hist' = length hist + Suc k"
  using assms
proof (induction its arbitrary: self vars hist)
  case Nil
  then show ?case by simp
next
  case (Cons it its)
  from sweep_total [OF Cons.prems(1)] obtain dl self1 where
    sw: "sweep self = Inr (dl, self1)"
    and keep: "wf_solver self1" "cfg self1 = cfg self" "policy_feasible self1"
    by blast
  from np_max_nonempty [OF wf_solver_value_function_nonempty [OF keep(1)]]
  obtain mx where mx: "np_max (value_function self1) = Inr mx" by blast
  from np_min_nonempty [OF wf_solver_value_function_nonempty [OF keep(1)]]
  obtain mn where mn: "np_min (value_function self1) = Inr mn" by blast
  let ?hist1 = "hist @ [\<lparr>iteration = it + 1, delta = dl, max_value = mx, min_value = mn\<rparr>]"
  have body: "iteration_loop self epsilon (it # its) vars hist =
          (if dl < epsilon then Inr (Some (dl, it), ?hist1, self1)
           else iteration_loop self1 epsilon its (Some (dl, it)) ?hist1)"
    using sw mx mn by (simp add: Let_def)
  have one: "sweeps (Suc 0) self = Inr self1"
    using sw by simp
  have first: "nth_sweep self 0 = Inr (dl, self1)"
    using sw by (simp add: nth_sweep_0)
  show ?case
  proof (cases "dl < epsilon \<or> its = []")
    case True
    then have "iteration_loop self epsilon (it # its) vars hist =
                 Inr (Some (dl, (it # its) ! 0), ?hist1, self1)"
      using body by auto
    moreover have "dl < epsilon \<or> Suc 0 = length (it # its)"
      using True by auto
    moreover have "length ?hist1 = length hist + Suc 0"
      by simp
    ultimately show ?thesis
      using one first keep by - (rule exI [of _ 0], blast)
  next
    case False
    then have its: "its \<noteq> []" and big: "\<not> dl < epsilon" by simp_all
    from Cons.IH [OF keep(1) its, of "Some (dl, it)" ?hist1]
    obtain k dl' hist' self' where
      run: "iteration_loop self1 epsilon its (Some (dl, it)) ?hist1 =
              Inr (Some (dl', its ! k), hist', self')"
      and k: "k < length its" "dl' < epsilon \<or> Suc k = length its"
      and sws: "sweeps (Suc k) self1 = Inr self'"
      and keep': "wf_solver self'" "cfg self' = cfg self1" "policy_feasible self'"
      and final: "nth_sweep self1 k = Inr (dl', self')"
      and earlier: "\<forall>j<k. \<exists>d q. nth_sweep self1 j = Inr (d, q) \<and> \<not> d < epsilon"
      and len: "length hist' = length ?hist1 + Suc k"
      by blast
    have "iteration_loop self epsilon (it # its) vars hist =
            Inr (Some (dl', (it # its) ! Suc k), hist', self')"
      using body big run by simp
    moreover have "sweeps (Suc (Suc k)) self = Inr self'"
      using sw sws by simp
    moreover have "Suc k < length (it # its)" "dl' < epsilon \<or> Suc (Suc k) = length (it # its)"
      using k by auto
    moreover have "nth_sweep self (Suc k) = Inr (dl', self')"
      using final by (simp only: nth_sweep_Suc [OF sw])
    moreover have "\<forall>j<Suc k. \<exists>d q. nth_sweep self j = Inr (d, q) \<and> \<not> d < epsilon"
    proof (intro allI impI)
      fix j assume j: "j < Suc k"
      show "\<exists>d q. nth_sweep self j = Inr (d, q) \<and> \<not> d < epsilon"
      proof (cases j)
        case 0
        then show ?thesis using first big by blast
      next
        case (Suc j')
        then have "j' < k" using j by simp
        then obtain d q where "nth_sweep self1 j' = Inr (d, q)" "\<not> d < epsilon"
          using earlier by blast
        moreover have "nth_sweep self j = nth_sweep self1 j'"
          using Suc by (simp only: nth_sweep_Suc [OF sw])
        ultimately show ?thesis by simp
      qed
    qed
    moreover have "length hist' = length hist + Suc (Suc k)"
      using len by simp
    ultimately show ?thesis
      using keep' keep(2) by - (rule exI [of _ "Suc k"], auto)
  qed
qed

lemma value_iteration_run:
  assumes "wf_solver self" "1 \<le> n"
  shows "\<exists>r self'. value_iteration self epsilon n = Inr (r, self') \<and>
           1 \<le> iterations r \<and> iterations r \<le> n \<and>
           converged r = (final_delta r < epsilon) \<and>
           (converged r \<or> iterations r = n) \<and>
           sweeps (nat (iterations r)) self = Inr self' \<and>
           wf_solver self' \<and> cfg self' = cfg self \<and> policy_feasible self'"
proof -
  have ne: "py_range n \<noteq> []" and len: "length (py_range n) = nat n"
    using assms(2) by (simp_all add: py_range_def)
  from iteration_loop_run [OF assms(1) ne, of epsilon None "[]"]
  obtain k dl hist' self' where
    run: "iteration_loop self epsilon (py_range n) None [] =
            Inr (Some (dl, py_range n ! k), hist', self')"
    and k: "k < length (py_range n)" "dl < epsilon \<or> Suc k = length (py_range n)"
    and sws: "sweeps (Suc k) self = Inr self'"
    and keep: "wf_solver self'" "cfg self' = cfg self" "policy_feasible self'"
    by blast
  have nth: "py_range n ! k = int k"
    using k(1) len by (simp add: py_range_def)
  let ?r = "\<lparr>converged = dl < epsilon, iterations = int k + 1,
              final_delta = dl, history = hist'\<rparr>"
  have "value_iteration self epsilon n = Inr (?r, self')"
    using run nth by (simp add: value_iteration_def)
  moreover have "nat (iterations ?r) = Suc k" by simp
  moreover have "iterations ?r \<le> n" "dl < epsilon \<or> iterations ?r = n"
    using k len by auto
  ultimately show ?thesis
    using sws keep by - (rule exI [of _ ?r], rule exI [of _ self'], simp)
qed

text \<open>
  C7. On a well-formed solver, after a completed sweep, and after \<open>value_iteration\<close>
  returns (it does for every \<open>max_iterations \<ge> 1\<close>), every state \<open>s\<close> has
  \<open>0 \<le> policy[s] \<le> max_inventory - s\<close>; in particular \<open>policy[max_inventory] = 0\<close>.
\<close>

theorem value_iteration_policy_feasible:
  assumes "wf_solver self" and "0 < demand_std (cfg self)" and "1 \<le> n"
  shows "(\<exists>dl self1. sweep self = Inr (dl, self1) \<and>
            (\<forall>s\<in>{0..max_inventory (cfg self)}.
               0 \<le> policy self1 ! nat s \<and>
               policy self1 ! nat s \<le> max_inventory (cfg self) - s) \<and>
            policy self1 ! nat (max_inventory (cfg self)) = 0) \<and>
         (\<exists>r self'. value_iteration self epsilon n = Inr (r, self') \<and>
            (\<forall>s\<in>{0..max_inventory (cfg self)}.
               0 \<le> policy self' ! nat s \<and>
               policy self' ! nat s \<le> max_inventory (cfg self) - s) \<and>
            policy self' ! nat (max_inventory (cfg self)) = 0)"
proof -
  have cap: "0 \<le> max_inventory (cfg self)"
    using assms(1) by (simp add: wf_solver_def)
  have last: "policy t ! nat (max_inventory (cfg self)) = 0"
    if "policy_feasible t" "cfg t = cfg self" for t
    using that cap by (force simp: policy_feasible_def)
  from sweep_total [OF assms(1)] obtain dl self1 where
    "sweep self = Inr (dl, self1)" "cfg self1 = cfg self" "policy_feasible self1"
    by blast
  moreover from value_iteration_run [OF assms(1,3), of epsilon] obtain r self' where
    "value_iteration self epsilon n = Inr (r, self')" "cfg self' = cfg self"
    "policy_feasible self'"
    by blast
  ultimately show ?thesis
    using last by (fastforce simp: policy_feasible_def)
qed

theorem value_iteration_policy_feasible_witness:
  "wf_solver default_solver \<and> 0 < demand_std (cfg default_solver) \<and> (1::int) \<le> 1000 \<and>
   (\<exists>r self'. value_iteration default_solver (1 / 100) 1000 = Inr (r, self') \<and>
      (\<forall>s\<in>{0..100}. 0 \<le> policy self' ! nat s \<and> policy self' ! nat s \<le> 100 - s) \<and>
      policy self' ! nat 100 = 0)"
  using value_iteration_policy_feasible
      [OF wf_default_solver std_default_solver, of 1000 "1 / 100"]
    wf_default_solver std_default_solver
  by (simp add: capacity_default_solver)

subsection \<open>The reported delta and the stopping rule\<close>

text \<open>The delta of a sweep is the largest change of a value over all states.\<close>

lemma Max_insert_max:
  fixes a b :: real
  assumes "finite X"
  shows "Max (insert (max a b) X) = Max (insert a (insert b X))"
proof (cases "X = {}")
  case True
  then show ?thesis by simp
next
  case False
  then show ?thesis using assms by (simp add: max.assoc)
qed

lemma state_loop_delta:
  assumes "wf_solver self" "\<forall>s\<in>set ss. 0 \<le> s \<and> s \<le> max_inventory (cfg self)" "distinct ss"
  shows "\<exists>dl' self'. state_loop self ss dl = Inr (dl', self') \<and>
           (\<forall>i\<in>{0..max_inventory (cfg self)}. i \<notin> set ss \<longrightarrow>
              value_function self' ! nat i = value_function self ! nat i) \<and>
           dl' = Max (insert dl (value_change self self' ` set ss))"
  using assms
proof (induction ss arbitrary: self dl)
  case Nil
  then show ?case by simp
next
  case (Cons s ss)
  let ?M = "max_inventory (cfg self)"
  have s: "0 \<le> s" "s \<le> ?M"
    using Cons.prems(2) by simp_all
  from state_loop_step [OF Cons.prems(1) s, of ss dl] obtain m b self1 where
    keep: "wf_solver self1" "cfg self1 = cfg self" "states self1 = states self"
      "value_function self1 = value_function self" "policy self1 = policy self"
    and step: "state_loop self (s # ss) dl =
             state_loop (self1\<lparr>value_function := (value_function self)[nat s := m],
                                policy := (policy self)[nat s := b]\<rparr>) ss
               (max dl \<bar>value_function self ! nat s - m\<bar>)"
    by blast
  let ?self2 = "self1\<lparr>value_function := (value_function self)[nat s := m],
                      policy := (policy self)[nat s := b]\<rparr>"
  let ?d = "\<bar>value_function self ! nat s - m\<bar>"
  have wf2: "wf_solver ?self2"
    using keep by (intro wf_solver_tables_update) simp_all
  have cfg2: "cfg ?self2 = cfg self" using keep by simp
  have rng: "\<forall>s\<in>set ss. 0 \<le> s \<and> s \<le> max_inventory (cfg ?self2)"
    using Cons.prems(2) cfg2 by simp
  have dist: "distinct ss" and fresh: "s \<notin> set ss"
    using Cons.prems(3) by simp_all
  from Cons.IH [OF wf2 rng dist, of "max dl ?d"] obtain dl' self' where
    run: "state_loop ?self2 ss (max dl ?d) = Inr (dl', self')"
    and frame: "\<forall>i\<in>{0..?M}. i \<notin> set ss \<longrightarrow>
              value_function self' ! nat i = value_function ?self2 ! nat i"
    and dl': "dl' = Max (insert (max dl ?d) (value_change ?self2 self' ` set ss))"
    using keep by auto
  have slen: "nat s < length (value_function self)"
    using Cons.prems(1) s by (simp add: wf_solver_def)
  have at_s: "value_function self' ! nat s = m"
    using frame s fresh slen by simp
  have other: "value_function ?self2 ! nat i = value_function self ! nat i"
    if "i \<in> {0..?M}" "i \<noteq> s" for i
  proof -
    have "nat i \<noteq> nat s" using that s by auto
    then show ?thesis by simp
  qed
  have "\<forall>i\<in>{0..?M}. i \<notin> set (s # ss) \<longrightarrow>
          value_function self' ! nat i = value_function self ! nat i"
    using frame other by simp
  moreover have "value_change ?self2 self' i = value_change self self' i" if "i \<in> set ss" for i
  proof -
    have "i \<in> {0..?M}" "i \<noteq> s" using that Cons.prems(2) fresh by auto
    then show ?thesis using other by (simp add: value_change_def)
  qed
  then have img: "value_change ?self2 self' ` set ss = value_change self self' ` set ss"
    by (intro image_cong) simp_all
  have "?d = value_change self self' s"
    using at_s by (simp add: value_change_def)
  then have "dl' = Max (insert dl (value_change self self' ` set (s # ss)))"
    using dl' by (simp only: img Max_insert_max [OF finite_imageI [OF finite_set]]
        list.set image_insert)
  ultimately show ?case using step run by simp
qed

lemma sweep_delta:
  assumes "wf_solver self" "sweep self = Inr (dl, self')"
  shows "dl = Max (value_change self self' ` {0..max_inventory (cfg self)})"
proof -
  let ?M = "max_inventory (cfg self)"
  have sts: "states self = [0..?M]" and cap: "0 \<le> ?M"
    using assms(1) by (simp_all add: wf_solver_def py_range_def)
  have "\<forall>s\<in>set (states self). 0 \<le> s \<and> s \<le> ?M" "distinct (states self)"
    by (simp_all add: sts)
  from state_loop_delta [OF assms(1) this, of 0] obtain dl' self'' where
    run': "state_loop self (states self) 0 = Inr (dl', self'')"
    and eq: "dl' = Max (insert 0 (value_change self self'' ` set (states self)))"
    by blast
  have run: "state_loop self (states self) 0 = Inr (dl, self')"
    using assms(2) by (simp only: sweep_def)
  have same: "dl' = dl" "self'' = self'"
    using run run' by simp_all
  have dl: "dl = Max (insert 0 (value_change self self' ` {0..?M}))"
    using eq by (simp only: same sts set_upto)
  let ?X = "value_change self self' ` {0..?M}"
  have fin: "finite ?X" and ne: "?X \<noteq> {}"
    using cap by simp_all
  have "value_change self self' 0 \<in> ?X" using cap by simp
  then have "value_change self self' 0 \<le> Max ?X"
    using fin by (intro Max_ge)
  moreover have "0 \<le> value_change self self' 0"
    by (simp add: value_change_def)
  ultimately have "0 \<le> Max ?X" by simp
  then have "Max (insert 0 ?X) = Max ?X"
    using fin ne by (simp add: max_def)
  then show ?thesis using dl by simp
qed

text \<open>For \<open>max_iterations \<ge> 1\<close> the call returns a record: it stops after the first
  sweep whose delta is below \<open>epsilon\<close>, or after \<open>max_iterations\<close> sweeps, and
  \<open>converged\<close> says which.\<close>

lemma value_iteration_positive:
  assumes "wf_solver self" and "0 < demand_std (cfg self)" and "1 \<le> n"
  shows "\<exists>r self'. value_iteration self epsilon n = Inr (r, self') \<and>
           1 \<le> iterations r \<and> iterations r \<le> n \<and>
           converged r = (final_delta r < epsilon) \<and>
           (converged r \<or> iterations r = n) \<and>
           length (history r) = nat (iterations r) \<and>
           nth_sweep self (nat (iterations r) - 1) = Inr (final_delta r, self') \<and>
           (\<forall>j<nat (iterations r) - 1.
              \<exists>d q. nth_sweep self j = Inr (d, q) \<and> \<not> d < epsilon)"
proof -
  have ne: "py_range n \<noteq> []" and len: "length (py_range n) = nat n"
    using assms(3) by (simp_all add: py_range_def)
  from iteration_loop_run [OF assms(1) ne, of epsilon None "[]"]
  obtain k dl hist' self' where
    run: "iteration_loop self epsilon (py_range n) None [] =
            Inr (Some (dl, py_range n ! k), hist', self')"
    and k: "k < length (py_range n)" "dl < epsilon \<or> Suc k = length (py_range n)"
    and final: "nth_sweep self k = Inr (dl, self')"
    and earlier: "\<forall>j<k. \<exists>d q. nth_sweep self j = Inr (d, q) \<and> \<not> d < epsilon"
    and hlen: "length hist' = length ([] :: history_entry list) + Suc k"
    by blast
  have nth: "py_range n ! k = int k"
    using k(1) len by (simp add: py_range_def)
  let ?r = "\<lparr>converged = dl < epsilon, iterations = int k + 1,
              final_delta = dl, history = hist'\<rparr>"
  have call: "value_iteration self epsilon n = Inr (?r, self')"
    using run nth by (simp add: value_iteration_def)
  have cnt: "nat (iterations ?r) - 1 = k" "nat (iterations ?r) = Suc k" by simp_all
  have "iterations ?r \<le> n" "dl < epsilon \<or> iterations ?r = n"
    using k len by auto
  then have "1 \<le> iterations ?r \<and> iterations ?r \<le> n \<and>
           converged ?r = (final_delta ?r < epsilon) \<and>
           (converged ?r \<or> iterations ?r = n) \<and>
           length (history ?r) = nat (iterations ?r) \<and>
           nth_sweep self (nat (iterations ?r) - 1) = Inr (final_delta ?r, self') \<and>
           (\<forall>j<nat (iterations ?r) - 1.
              \<exists>d q. nth_sweep self j = Inr (d, q) \<and> \<not> d < epsilon)"
    using final earlier hlen by (simp only: cnt) simp
  then show ?thesis
    using call by blast
qed

text \<open>
  C3, at the input where it fails. With \<open>max_iterations = 0\<close> the loop body never
  runs, \<^verbatim>\<open>delta\<close> and \<^verbatim>\<open>iteration\<close> are unbound at the \<^verbatim>\<open>return\<close>, and the call
  raises instead of returning a record with \<open>converged = false\<close>.
\<close>

theorem value_iteration_no_sweep: "value_iteration self epsilon 0 = Inl UnboundLocalError"
  by (simp add: value_iteration_def py_range_def)

subsection \<open>Calling value iteration twice\<close>

lemma sweeps_add:
  "sweeps (a + b) self = (case sweeps a self of Inl e \<Rightarrow> Inl e | Inr self1 \<Rightarrow> sweeps b self1)"
  by (induction a arbitrary: self) (auto split: sum.splits)

text \<open>
  C9, as the code has it. \<open>value_iteration\<close> never resets the tables. On a
  well-formed solver two calls in succession both return, the second one runs at least
  one more sweep from the tables the first one left, and the tables after the second
  call are those of \<open>iterations\<^sub>1 + iterations\<^sub>2\<close> sweeps from the tables before
  the first.
\<close>

theorem value_iteration_resumes:
  assumes "wf_solver self" and "0 < demand_std (cfg self)" and "1 \<le> n" and "1 \<le> m"
  shows "\<exists>r1 self1 r2 self2.
           value_iteration self epsilon n = Inr (r1, self1) \<and>
           value_iteration self1 epsilon m = Inr (r2, self2) \<and>
           1 \<le> iterations r1 \<and> 1 \<le> iterations r2 \<and>
           sweeps (nat (iterations r1)) self = Inr self1 \<and>
           sweeps (nat (iterations r2)) self1 = Inr self2 \<and>
           sweeps (nat (iterations r1 + iterations r2)) self = Inr self2"
proof -
  from value_iteration_run [OF assms(1,3), of epsilon] obtain r1 self1 where
    c1: "value_iteration self epsilon n = Inr (r1, self1)"
    and i1: "1 \<le> iterations r1"
    and s1: "sweeps (nat (iterations r1)) self = Inr self1"
    and wf1: "wf_solver self1"
    by blast
  from value_iteration_run [OF wf1 assms(4), of epsilon] obtain r2 self2 where
    c2: "value_iteration self1 epsilon m = Inr (r2, self2)"
    and i2: "1 \<le> iterations r2"
    and s2: "sweeps (nat (iterations r2)) self1 = Inr self2"
    by blast
  have "nat (iterations r1 + iterations r2) = nat (iterations r1) + nat (iterations r2)"
    using i1 i2 by (simp add: nat_add_distrib)
  then have "sweeps (nat (iterations r1 + iterations r2)) self = Inr self2"
    using s1 s2 by (simp add: sweeps_add)
  then show ?thesis using c1 c2 i1 i2 s1 s2 by blast
qed

theorem value_iteration_resumes_witness:
  "wf_solver default_solver \<and> 0 < demand_std (cfg default_solver) \<and> (1::int) \<le> 1000 \<and>
   (\<exists>r1 self1 r2 self2.
      value_iteration default_solver (1 / 100) 1000 = Inr (r1, self1) \<and>
      value_iteration self1 (1 / 100) 1000 = Inr (r2, self2) \<and>
      1 \<le> iterations r2 \<and>
      sweeps (nat (iterations r1 + iterations r2)) default_solver = Inr self2)"
proof -
  have n: "(1::int) \<le> 1000" by simp
  from value_iteration_resumes [OF wf_default_solver std_default_solver n n, of "1 / 100"]
  have "\<exists>r1 self1 r2 self2.
      value_iteration default_solver (1 / 100) 1000 = Inr (r1, self1) \<and>
      value_iteration self1 (1 / 100) 1000 = Inr (r2, self2) \<and>
      1 \<le> iterations r2 \<and>
      sweeps (nat (iterations r1 + iterations r2)) default_solver = Inr self2"
    by blast
  then show ?thesis
    using wf_default_solver std_default_solver n by simp
qed

text \<open>
  The tables after the two calls differ: on the freshly constructed \<open>small_solver\<close>
  the value of state 0 is \<open>- 20 p\<^sub>1\<close> after the first call and
  \<open>- 20 p\<^sub>1 - 19 p\<^sub>1 (p\<^sub>0 + p\<^sub>1)\<close> after the second, where \<open>p\<^sub>d\<close> is
  \<open>demand_probability d\<close>; both with one sweep allowed per call and with a tolerance
  so large that each call converges in its first sweep.
\<close>

lemma demand_probability_cfg:
  "cfg t = cfg u \<Longrightarrow> demand_probability t d = demand_probability u d"
  by (simp add: demand_probability_def)

lemma small_call:
  assumes "self = \<lparr>cfg = small_config, states = [0], value_function = [v], policy = [p],
                   q_values = [[q]]\<rparr>"
    and "v' = demand_probability small_solver 0 * (95 / 100 * v) +
              demand_probability small_solver 1 * (- 20 + 95 / 100 * v)"
    and "n = 1 \<or> (1 \<le> n \<and> \<bar>v - v'\<bar> < epsilon)"
  shows "\<exists>r. value_iteration self epsilon n =
           Inr (r, \<lparr>cfg = small_config, states = [0], value_function = [v'], policy = [0],
                    q_values = [[v']]\<rparr>)"
proof -
  have fields: "cfg self = small_config" "states self = [0]" "value_function self = [v]"
    "policy self = [p]" "q_values self = [[q]]"
    using assms(1) by simp_all
  have dp: "demand_probability self d = demand_probability small_solver d" for d
    by (rule demand_probability_cfg) (simp add: fields small_solver_def)
  have md: "max_demand self = 1"
    by (simp add: max_demand_def fields small_config_def py_int_def)
  have upto01: "[0..1] = [0, 1::int]"
    by (simp add: upto.simps)
  have dl: "demand_loop self 0 0 [0..1] 0 = Inr v'"
    by (simp add: upto01 dp assms(2) immediate_reward_def resulting_state_def getitem_def
          np_index_def fields small_config_def Let_def)
  have bu: "bellman_update self 0 =
          Inr ((Finite v', 0), self\<lparr>q_values := [[v']]\<rparr>)"
    by (simp add: bellman_update_def py_range_def md dl setitem2_def np_index_def fields
          small_config_def)
  have sw: "sweep self =
          Inr (\<bar>v - v'\<bar>, self\<lparr>q_values := [[v']], value_function := [v'], policy := [0]\<rparr>)"
    by (simp add: sweep_def bu getitem_def setitem_def np_index_def fields)
  have range: "py_range n = 0 # [1..n - 1]"
    using assms(3) by (auto simp: py_range_def upto.simps)
  let ?self1 = "self\<lparr>q_values := [[v']], value_function := [v'], policy := [0]\<rparr>"
  let ?hist1 = "[\<lparr>iteration = 1, delta = \<bar>v - v'\<bar>, max_value = v', min_value = v'\<rparr>]"
  have body: "iteration_loop self epsilon (py_range n) None [] =
          (if \<bar>v - v'\<bar> < epsilon then Inr (Some (\<bar>v - v'\<bar>, 0), ?hist1, ?self1)
           else iteration_loop ?self1 epsilon [1..n - 1] (Some (\<bar>v - v'\<bar>, 0)) ?hist1)"
    by (simp add: range sw np_max_def np_min_def Let_def)
  have "iteration_loop self epsilon (py_range n) None [] =
          Inr (Some (\<bar>v - v'\<bar>, 0), ?hist1, ?self1)"
    using assms(3)
  proof
    assume "n = 1"
    then have "[1..n - 1] = []" by simp
    then show ?thesis by (simp add: body)
  next
    assume "1 \<le> n \<and> \<bar>v - v'\<bar> < epsilon"
    then show ?thesis by (simp add: body)
  qed
  then have "\<exists>r. value_iteration self epsilon n = Inr (r, ?self1)"
    by (simp add: value_iteration_def)
  then show ?thesis
    using assms(1) by simp
qed

lemma small_probabilities:
  "0 < demand_probability small_solver 0" "demand_probability small_solver 0 < 10"
  "0 < demand_probability small_solver 1" "demand_probability small_solver 1 < 10"
proof -
  have "1 < sqrt (2 * pi)"
    using pi_ge_two by simp
  then have peak: "1 / (sqrt (2 * pi) * (1 / 10)) < 10"
    by (simp add: divide_less_eq)
  have le: "norm_pdf x 1 (1 / 10) \<le> 1 / (sqrt (2 * pi) * (1 / 10))" for x
    by (rule norm_pdf_le_peak) simp
  have lt: "norm_pdf x 1 (1 / 10) < 10" for x
    using le [of x] peak by (rule le_less_trans)
  have pos: "0 < norm_pdf x 1 (1 / 10)" for x
    by (rule norm_pdf_pos) simp
  show "0 < demand_probability small_solver 0" "demand_probability small_solver 0 < 10"
    "0 < demand_probability small_solver 1" "demand_probability small_solver 1 < 10"
    using pos [of 0] pos [of 1] lt [of 0] lt [of 1]
    by (simp_all add: demand_probability_def small_solver_def small_config_def)
qed

lemma small_twice:
  assumes "n = 1 \<or> (1 \<le> n \<and> 4000 \<le> epsilon)"
  shows "\<exists>self1 self2. solve_twice small_solver epsilon n = Inr (self1, self2) \<and>
           value_function self1 \<noteq> value_function self2"
proof -
  let ?p0 = "demand_probability small_solver 0"
  let ?p1 = "demand_probability small_solver 1"
  let ?v1 = "?p0 * (95 / 100 * 0) + ?p1 * (- 20 + 95 / 100 * 0)"
  let ?v2 = "?p0 * (95 / 100 * ?v1) + ?p1 * (- 20 + 95 / 100 * ?v1)"
  let ?s1 = "\<lparr>cfg = small_config, states = [0], value_function = [?v1], policy = [0],
              q_values = [[?v1]]\<rparr>"
  let ?s2 = "\<lparr>cfg = small_config, states = [0], value_function = [?v2], policy = [0],
              q_values = [[?v2]]\<rparr>"
  note P = small_probabilities
  have v1: "?v1 = - 20 * ?p1" by simp
  have diff: "?v1 - ?v2 = 19 * ?p1 * (?p0 + ?p1)"
    by (simp add: algebra_simps)
  have prod_pos: "0 < ?p1 * (?p0 + ?p1)"
    using P by (intro mult_pos_pos) simp_all
  have prod_lt: "?p1 * (?p0 + ?p1) < 10 * 20"
    using P by (intro mult_strict_mono) simp_all
  have d1: "\<bar>0 - ?v1\<bar> < 4000"
    using P by (simp add: v1)
  have "\<bar>19 * ?p1 * (?p0 + ?p1)\<bar> < 4000"
    using prod_pos prod_lt by (simp add: mult.assoc)
  then have d2: "\<bar>?v1 - ?v2\<bar> < 4000"
    by (simp only: diff)
  have ne: "?v1 \<noteq> ?v2"
    using prod_pos diff by simp
  have c1: "n = 1 \<or> (1 \<le> n \<and> \<bar>0 - ?v1\<bar> < epsilon)"
    using assms d1 by auto
  have c2: "n = 1 \<or> (1 \<le> n \<and> \<bar>?v1 - ?v2\<bar> < epsilon)"
    using assms d2 by auto
  from small_call [OF small_solver_shape refl c1] obtain r1 where
    r1: "value_iteration small_solver epsilon n = Inr (r1, ?s1)" by blast
  from small_call [OF refl refl c2] obtain r2 where
    r2: "value_iteration ?s1 epsilon n = Inr (r2, ?s2)" by blast
  have "solve_twice small_solver epsilon n = Inr (?s1, ?s2)"
    by (simp only: solve_twice_def r1 r2 sum.case prod.case)
  moreover have "value_function ?s1 \<noteq> value_function ?s2"
    using ne by simp
  ultimately show ?thesis by blast
qed

theorem solve_twice_counterexample:
  "(case solve_twice small_solver (1 / 100) 1 of
      Inl e \<Rightarrow> False
    | Inr (self1, self2) \<Rightarrow> value_function self1 \<noteq> value_function self2) \<and>
   (case solve_twice small_solver 4000 1000 of
      Inl e \<Rightarrow> False
    | Inr (self1, self2) \<Rightarrow> value_function self1 \<noteq> value_function self2)"
proof -
  from small_twice [of 1 "1 / 100"] obtain a b where
    "solve_twice small_solver (1 / 100) 1 = Inr (a, b)" "value_function a \<noteq> value_function b"
    by auto
  moreover from small_twice [of 1000 4000] obtain c d where
    "solve_twice small_solver 4000 1000 = Inr (c, d)" "value_function c \<noteq> value_function d"
    by auto
  ultimately show ?thesis by simp
qed

section \<open>The (s, S) summary\<close>

lemma collect_loop_filter:
  assumes "\<forall>s\<in>set ss. 0 \<le> s \<and> s < int (length (policy self))"
  shows "collect_loop self ss rp ou =
           Inr (rp @ filter (\<lambda>s. 0 < policy self ! nat s) ss,
                ou @ map (\<lambda>s. int64 (s + policy self ! nat s))
                       (filter (\<lambda>s. 0 < policy self ! nat s) ss))"
  using assms
  by (induction ss arbitrary: rp ou) (simp_all add: getitem_in_range)

lemma int64_id: "- (2 ^ 63) \<le> x \<Longrightarrow> x < 2 ^ 63 \<Longrightarrow> int64 x = x"
  by (simp add: int64_def)

lemma py_max_Max: "xs \<noteq> [] \<Longrightarrow> py_max xs = Max (set xs)"
proof (cases xs)
  case Nil
  assume "xs \<noteq> []"
  with Nil show ?thesis by simp
next
  case (Cons x ys)
  have "Max (set (x # ys)) = fold max ys x" by (rule Max.set_eq_fold)
  then show ?thesis using Cons by (simp only: py_max_def list.sel)
qed

lemma py_int_nonneg: "0 \<le> x \<Longrightarrow> py_int x = \<lfloor>x\<rfloor>"
  by (simp add: py_int_def)

lemma sum_list_filter_upto:
  "sum_list (map f (filter P [i..j])) = (\<Sum>s\<in>{s \<in> {i..j}. P s}. f s)"
proof -
  have "set (filter P [i..j]) = {s \<in> {i..j}. P s}" by auto
  then show ?thesis by (simp add: sum_list_distinct_conv_sum_set)
qed

lemma length_filter_upto:
  "length (filter P [i..j]) = card {s \<in> {i..j}. P s}"
proof -
  have "set (filter P [i..j]) = {s \<in> {i..j}. P s}" by auto
  then show ?thesis using distinct_card [of "filter P [i..j]"] by simp
qed

text \<open>The policies that the solver writes are in the range where the mean is exact,
  for every capacity below \<open>2\<^sup>2\<^sup>6\<close>.\<close>

lemma feasible_policy_mean_exact:
  assumes "policy_feasible self" "0 \<le> max_inventory (cfg self)"
    "max_inventory (cfg self) < 2 ^ 26"
  shows "(\<Sum>s\<in>{s \<in> {0..max_inventory (cfg self)}. 0 < policy self ! nat s}.
             s + policy self ! nat s) +
         int (card {s \<in> {0..max_inventory (cfg self)}. 0 < policy self ! nat s}) < 2 ^ 53"
proof -
  let ?M = "max_inventory (cfg self)"
  let ?A = "{s \<in> {0..?M}. 0 < policy self ! nat s}"
  have "card ?A \<le> card {0..?M}"
    by (intro card_mono) auto
  then have card: "int (card ?A) \<le> ?M + 1"
    using assms(2) by simp
  have each: "s + policy self ! nat s \<le> ?M" if "s \<in> ?A" for s
  proof -
    have "s \<in> {0..?M}" using that by simp
    then have "policy self ! nat s \<le> ?M - s"
      using assms(1) by (simp add: policy_feasible_def)
    then show ?thesis by simp
  qed
  have "(\<Sum>s\<in>?A. s + policy self ! nat s) \<le> of_nat (card ?A) * ?M"
    by (intro sum_bounded_above each)
  then have "(\<Sum>s\<in>?A. s + policy self ! nat s) + int (card ?A) \<le> int (card ?A) * (?M + 1)"
    by (simp add: algebra_simps)
  also have "\<dots> \<le> (?M + 1) * (?M + 1)"
    using card assms(2) by (intro mult_right_mono) simp_all
  also have "\<dots> \<le> 2 ^ 26 * 2 ^ 26"
    using assms(2,3) by (intro mult_mono) simp_all
  also have "\<dots> < (2 ^ 53 :: int)"
    by simp
  finally show ?thesis .
qed

text \<open>
  C8. On a well-formed solver, with \<open>P\<close> the set of states whose policy entry is
  positive, and for entries small enough that the 64-bit sums do not wrap and the
  float64 mean is exact (the sum of \<open>s + policy[s]\<close> over \<open>P\<close> plus the size of
  \<open>P\<close> is below \<open>2\<^sup>5\<^sup>3\<close>): if \<open>P\<close> is not empty, \<open>compute_s_S_policy\<close> returns
  the largest state of \<open>P\<close> and the mean of \<open>s + policy[s]\<close> over \<open>P\<close> rounded down;
  otherwise it returns \<open>max_inventory div 3\<close> and \<open>2 * max_inventory div 3\<close>.
\<close>

theorem compute_s_S_policy_summary:
  assumes "wf_solver self"
    and "(\<Sum>s\<in>{s \<in> {0..max_inventory (cfg self)}. 0 < policy self ! nat s}.
             s + policy self ! nat s) +
         int (card {s \<in> {0..max_inventory (cfg self)}. 0 < policy self ! nat s}) < 2 ^ 53"
  shows "compute_s_S_policy self =
           Inr (if {s \<in> {0..max_inventory (cfg self)}. 0 < policy self ! nat s} \<noteq> {}
                then (Max {s \<in> {0..max_inventory (cfg self)}. 0 < policy self ! nat s},
                      \<lfloor>real_of_int (\<Sum>s\<in>{s \<in> {0..max_inventory (cfg self)}.
                                             0 < policy self ! nat s}. s + policy self ! nat s) /
                        real (card {s \<in> {0..max_inventory (cfg self)}.
                                      0 < policy self ! nat s})\<rfloor>)
                else (max_inventory (cfg self) div 3, 2 * max_inventory (cfg self) div 3))"
proof -
  let ?M = "max_inventory (cfg self)"
  let ?P = "\<lambda>s. 0 < policy self ! nat s"
  let ?f = "\<lambda>s. s + policy self ! nat s"
  let ?A = "{s \<in> {0..?M}. ?P s}"
  let ?rp = "filter ?P [0..?M]"
  have sts: "states self = [0..?M]" and len: "length (policy self) = nat (?M + 1)"
    using assms(1) by (simp_all add: wf_solver_def py_range_def)
  have "\<forall>s\<in>set (states self). 0 \<le> s \<and> s < int (length (policy self))"
    using sts len by auto
  from collect_loop_filter [OF this, of "[]" "[]"]
  have coll0: "collect_loop self (states self) [] [] =
                 Inr (?rp, map (\<lambda>s. int64 (?f s)) ?rp)"
    by (simp add: sts)
  have set: "set ?rp = ?A" by auto
  have fin: "finite ?A" by (rule finite_subset [of _ "{0..?M}"]) auto
  have pos: "0 < ?f s" if "s \<in> ?A" for s
    using that by auto
  have total: "(\<Sum>s\<in>?A. ?f s) < 2 ^ 53"
    using assms(2) by linarith
  have small: "?f s < 2 ^ 53" if "s \<in> ?A" for s
  proof -
    have "?f s \<le> (\<Sum>s\<in>?A. ?f s)"
      using that fin pos by (intro member_le_sum) (auto intro: less_imp_le)
    then show ?thesis using total by linarith
  qed
  have "int64 (?f s) = ?f s" if "s \<in> set ?rp" for s
  proof -
    have "s \<in> ?A" using that set by simp
    then have "0 < ?f s" "?f s < 2 ^ 53" using pos small by blast+
    then show ?thesis by (intro int64_id) simp_all
  qed
  then have "map (\<lambda>s. int64 (?f s)) ?rp = map ?f ?rp"
    by (intro map_cong) simp_all
  then have coll: "collect_loop self (states self) [] [] = Inr (?rp, map ?f ?rp)"
    using coll0 by simp
  show ?thesis
  proof (cases "?A = {}")
    case True
    then have "?rp = []" using set by (metis set_empty)
    then show ?thesis using True coll by (simp add: compute_s_S_policy_def)
  next
    case False
    then have ne: "?rp \<noteq> []" using set by (metis set_empty)
    have "\<bar>?f s\<bar> = ?f s" if "s \<in> set ?rp" for s
      using that pos set by (auto simp only: abs_of_pos)
    then have "map (\<lambda>s. \<bar>?f s\<bar>) ?rp = map ?f ?rp"
      by (intro map_cong) simp_all
    then have nonneg: "map abs (map ?f ?rp) = map ?f ?rp"
      by (simp add: comp_def)
    have bound: "sum_list (map ?f ?rp) + int (length (map ?f ?rp)) < 2 ^ 53"
      using assms(2) by (simp only: sum_list_filter_upto length_filter_upto length_map)
    have mean: "np_mean (map ?f ?rp) =
        Inr (real_of_int (\<Sum>s\<in>?A. ?f s) / real (card ?A))"
      using ne bound
      by (simp add: np_mean_def nonneg sum_list_filter_upto length_filter_upto)
    have "0 \<le> (\<Sum>s\<in>?A. ?f s)"
      by (intro sum_nonneg) auto
    then have "0 \<le> real_of_int (\<Sum>s\<in>?A. ?f s)"
      by (simp only: of_int_0_le_iff)
    then have "0 \<le> real_of_int (\<Sum>s\<in>?A. ?f s) / real (card ?A)"
      by (intro divide_nonneg_nonneg) simp_all
    then have S: "py_int (real_of_int (\<Sum>s\<in>?A. ?f s) / real (card ?A)) =
        \<lfloor>real_of_int (\<Sum>s\<in>?A. ?f s) / real (card ?A)\<rfloor>"
      by (rule py_int_nonneg)
    have s: "py_max ?rp = Max ?A"
      using py_max_Max [OF ne] by (simp only: set)
    have "compute_s_S_policy self =
        Inr (py_max ?rp, py_int (real_of_int (\<Sum>s\<in>?A. ?f s) / real (card ?A)))"
      using coll ne mean by (simp add: compute_s_S_policy_def)
    then have "compute_s_S_policy self =
        Inr (Max ?A, \<lfloor>real_of_int (\<Sum>s\<in>?A. ?f s) / real (card ?A)\<rfloor>)"
      by (simp only: s S)
    then show ?thesis using False by simp
  qed
qed

theorem compute_s_S_policy_summary_witness:
  "wf_solver ordering_solver \<and>
   (\<Sum>s\<in>{0, 1}. s + policy ordering_solver ! nat s) + int (card {0, 1::int}) < 2 ^ 53 \<and>
   compute_s_S_policy ordering_solver = Inr (1, 2)"
proof -
  have small: "(\<Sum>s\<in>{0, 1}. s + policy ordering_solver ! nat s) + int (card {0, 1::int})
                 < 2 ^ 53"
    by (simp add: ordering_solver_def)
  then have hyp: "(\<Sum>s\<in>{s \<in> {0..max_inventory (cfg ordering_solver)}.
                         0 < policy ordering_solver ! nat s}.
                     s + policy ordering_solver ! nat s) +
                  int (card {s \<in> {0..max_inventory (cfg ordering_solver)}.
                               0 < policy ordering_solver ! nat s}) < 2 ^ 53"
    by (simp only: ordering_states)
  have rhs: "(if {0, 1::int} \<noteq> {}
         then (Max {0, 1},
               \<lfloor>real_of_int (\<Sum>s\<in>{0, 1}. s + policy ordering_solver ! nat s) /
                 real (card {0, 1::int})\<rfloor>)
         else (max_inventory (cfg ordering_solver) div 3,
               2 * max_inventory (cfg ordering_solver) div 3)) = (1, 2)"
    by (simp add: ordering_solver_def)
  have "compute_s_S_policy ordering_solver = Inr (1, 2)"
    using compute_s_S_policy_summary [OF wf_ordering_solver hyp]
    by (simp only: ordering_states rhs)
  then show ?thesis
    using wf_ordering_solver small by simp
qed

text \<open>
  C10. On a solver as the constructor leaves it, before any call of
  \<open>value_iteration\<close>, \<open>compute_s_S_policy\<close> succeeds and returns the fallback
  \<open>(max_inventory div 3, 2 * max_inventory div 3)\<close>.
\<close>

theorem compute_s_S_policy_fresh:
  assumes "init c = Inr self"
  shows "compute_s_S_policy self = Inr (max_inventory c div 3, 2 * max_inventory c div 3)"
proof -
  let ?n = "length (py_range (max_inventory c + 1))"
  have fields: "cfg self = c" "states self = py_range (max_inventory c + 1)"
    "policy self = replicate ?n 0"
    using assms by (auto simp: init_def Let_def split: if_splits)
  have n: "?n = nat (max_inventory c + 1)"
    by (simp add: py_range_def)
  have inr: "\<forall>s\<in>set (states self). 0 \<le> s \<and> s < int (length (policy self))"
    by (auto simp: fields py_range_def)
  have "filter (\<lambda>s. 0 < policy self ! nat s) (states self) = []"
    by (auto simp: fields py_range_def filter_empty_conv)
  then have "collect_loop self (states self) [] [] = Inr ([], [])"
    using collect_loop_filter [OF inr, of "[]" "[]"] by simp
  then show ?thesis
    by (simp add: compute_s_S_policy_def fields)
qed

theorem compute_s_S_policy_fresh_witness:
  "init default_config = Inr default_solver \<and>
   compute_s_S_policy default_solver = Inr (33, 66)"
  using compute_s_S_policy_fresh [OF init_default] init_default
  by (simp add: default_config_def)

end
